theory Spec2Isabelle
  imports Complex_Main "HOL-Library.Signed_Division" "HOL-Library.Multiset"
begin

section \<open>The Error Diffusion network engine (ed\_reworked)\<close>

text \<open>
  A shallow embedding of the C program under \<^verbatim>\<open>src/ed_reworked\<close>: the global
  variables of \<^verbatim>\<open>ed_main.c\<close> become one record that every operation takes and
  returns, each \<^verbatim>\<open>for\<close> loop becomes a \<open>fold\<close> over the integer interval it runs
  through, and each statement of a loop body becomes a record update.

  Conventions of the model:
  \<^item> C \<^verbatim>\<open>int\<close> is \<open>int\<close>: the dimensions index arrays of \<open>MAX_NETWORK + 1\<close> entries,
    and within that capacity no sum of the program overflows. A statement about every
    configuration carries the capacity as a hypothesis, since beyond it the C program
    overflows or leaves its arrays. \<^verbatim>\<open>%\<close> and \<^verbatim>\<open>/\<close> on \<^verbatim>\<open>int\<close> are the truncating
    \<open>smod\<close> and \<open>sdiv\<close>.
  \<^item> C \<^verbatim>\<open>double\<close> is idealised as \<open>real\<close>: rounding, overflow to infinity and NaN
    are outside the model. Where the source divides by \<^verbatim>\<open>sigmoid_steepness\<close> the
    model agrees with it for a nonzero steepness only. The one function whose range
    depends on rounding is \<^verbatim>\<open>sigmoid\<close>; it is modelled a second time, as
    \<open>sigmoid_double\<close>, with every operation of its source line rounded to a double.
  \<^item> A global array is a total function from its \<open>int\<close> indices; an access outside
    the declared bounds (undefined in C) is not distinguished.
  \<^item> \<^verbatim>\<open>rand()\<close> is the environment: the values it returns, in call order, are the
    field \<open>rand_stream\<close>, and \<open>rand_calls\<close> counts the calls made so far.
  \<^item> The bounds of a loop are read from the state at its entry; no loop body assigns a
    dimension, which the frame lemmas below prove.
  \<^item> \<^verbatim>\<open>printf\<close> has no effect on the state and is left out.
\<close>

subsection \<open>Global state (ed\_main.c)\<close>

text \<open>The array dimensions of \<^verbatim>\<open>ed_main.h\<close>.\<close>

definition MAX_NETWORK :: int where
  "MAX_NETWORK = 1000"

definition MAX_OUTPUT :: int where
  "MAX_OUTPUT = 10"

record ed_state =
  size_input :: int
  size_output :: int
  size_hidden :: int
  size_hidden2 :: int
  total_neurons :: int
  neuron_input :: "int \<Rightarrow> int \<Rightarrow> real"
  neuron_output :: "int \<Rightarrow> int \<Rightarrow> real"
  error_delta :: "int \<Rightarrow> int \<Rightarrow> int \<Rightarrow> real"
  weights :: "int \<Rightarrow> int \<Rightarrow> int \<Rightarrow> real"
  weights_oscillating :: "int \<Rightarrow> real"
  learning_rate :: real
  bias :: real
  sigmoid_steepness :: real
  error_amplification :: real
  error_total :: real
  error_residual :: real
  error_count :: int
  config_flags :: "int \<Rightarrow> int"
  init_range_weight :: real
  init_range_threshold :: real
  timesteps :: int
  rand_stream :: "nat \<Rightarrow> nat"
  rand_calls :: nat

subsection \<open>Utility functions (ed\_main.c)\<close>

text \<open>\<^verbatim>\<open>signage\<close>: the sign of a number, as \<open>-1\<close>, \<open>0\<close> or \<open>1\<close>.\<close>

definition signage :: "real \<Rightarrow> real" where
  "signage x = (if x > 0 then 1 else (if x = 0 then 0 else - 1))"

text \<open>\<^verbatim>\<open>sigmoid\<close>: \<^verbatim>\<open>1 / (1 + exp(-2 * x / sigmoid_steepness))\<close>.\<close>

definition sigmoid :: "ed_state \<Rightarrow> real \<Rightarrow> real" where
  "sigmoid s x = 1 / (1 + exp (- 2 * x / sigmoid_steepness s))"

text \<open>
  The same function in the arithmetic of the machine. A \<^verbatim>\<open>double\<close> is an IEEE 754
  binary64 value: a finite number, an infinity or NaN (the sign of a zero is not kept: it
  shows only when a zero is a divisor, and a zero divisor is taken as \<open>+0\<close>). A result is
  rounded to the nearest double, ties to the even significand: \<open>ulp x\<close> is the spacing of
  the doubles in the binade of \<open>x\<close> (53-bit significands, exponents from \<open>-1022\<close>, below
  which the subnormal numbers keep the spacing \<open>2 powi (- 1074)\<close>), \<open>rounded x\<close> the
  nearest multiple of it, and a result whose rounding reaches \<open>2 powi 1024\<close> overflows to
  an infinity.
\<close>

datatype double = Finite real | PosInf | NegInf | NaN

definition nearest_even :: "real \<Rightarrow> int" where
  "nearest_even q =
     (let f = \<lfloor>q\<rfloor> in
      if q - of_int f < 1 / 2 then f
      else if 1 / 2 < q - of_int f then f + 1
      else if even f then f else f + 1)"

definition ulp :: "real \<Rightarrow> real" where
  "ulp x = 2 powi (max \<lfloor>log 2 \<bar>x\<bar>\<rfloor> (- 1022) - 52)"

definition rounded :: "real \<Rightarrow> real" where
  "rounded x = of_int (nearest_even (x / ulp x)) * ulp x"

definition to_double :: "real \<Rightarrow> double" where
  "to_double x =
     (if x = 0 then Finite 0
      else if 2 powi 1024 \<le> \<bar>rounded x\<bar> then (if 0 < x then PosInf else NegInf)
      else Finite (rounded x))"

text \<open>The operators \<^verbatim>\<open>*\<close>, \<^verbatim>\<open>/\<close> and \<^verbatim>\<open>+\<close> on doubles.\<close>

fun double_mult :: "double \<Rightarrow> double \<Rightarrow> double" where
  "double_mult (Finite x) (Finite y) = to_double (x * y)"
| "double_mult (Finite x) PosInf = (if x = 0 then NaN else if 0 < x then PosInf else NegInf)"
| "double_mult (Finite x) NegInf = (if x = 0 then NaN else if 0 < x then NegInf else PosInf)"
| "double_mult PosInf (Finite y) = (if y = 0 then NaN else if 0 < y then PosInf else NegInf)"
| "double_mult NegInf (Finite y) = (if y = 0 then NaN else if 0 < y then NegInf else PosInf)"
| "double_mult PosInf PosInf = PosInf"
| "double_mult PosInf NegInf = NegInf"
| "double_mult NegInf PosInf = NegInf"
| "double_mult NegInf NegInf = PosInf"
| "double_mult NaN b = NaN"
| "double_mult a NaN = NaN"

fun double_div :: "double \<Rightarrow> double \<Rightarrow> double" where
  "double_div (Finite x) (Finite y) =
     (if y = 0 then (if x = 0 then NaN else if 0 < x then PosInf else NegInf)
      else to_double (x / y))"
| "double_div (Finite x) PosInf = Finite 0"
| "double_div (Finite x) NegInf = Finite 0"
| "double_div PosInf (Finite y) = (if 0 \<le> y then PosInf else NegInf)"
| "double_div NegInf (Finite y) = (if 0 \<le> y then NegInf else PosInf)"
| "double_div PosInf PosInf = NaN"
| "double_div PosInf NegInf = NaN"
| "double_div NegInf PosInf = NaN"
| "double_div NegInf NegInf = NaN"
| "double_div NaN b = NaN"
| "double_div a NaN = NaN"

fun double_add :: "double \<Rightarrow> double \<Rightarrow> double" where
  "double_add (Finite x) (Finite y) = to_double (x + y)"
| "double_add (Finite x) PosInf = PosInf"
| "double_add (Finite x) NegInf = NegInf"
| "double_add PosInf (Finite y) = PosInf"
| "double_add NegInf (Finite y) = NegInf"
| "double_add PosInf PosInf = PosInf"
| "double_add PosInf NegInf = NaN"
| "double_add NegInf PosInf = NaN"
| "double_add NegInf NegInf = NegInf"
| "double_add NaN b = NaN"
| "double_add a NaN = NaN"

text \<open>
  \<^verbatim>\<open>exp\<close> of the C library, taken as the correctly rounded exponential: it overflows to
  \<open>+\<close>infinity and underflows through the subnormal numbers to 0. (The proofs below use
  of its accuracy only that the result is not negative, that at \<open>-40\<close> it is below
  \<open>2 powi (- 53)\<close>, where the exponential is some \<open>2 powi (- 58)\<close>, and that from 1024
  on it is infinite.)
\<close>

fun double_exp :: "double \<Rightarrow> double" where
  "double_exp (Finite x) = to_double (exp x)"
| "double_exp PosInf = PosInf"
| "double_exp NegInf = Finite 0"
| "double_exp NaN = NaN"

text \<open>
  \<^verbatim>\<open>1 / (1 + exp((double)(-2 * x / sigmoid_steepness)))\<close>, operation by operation, each
  result rounded to a double before the next operation uses it (evaluation in the
  precision of the type). The argument and the steepness are the finite doubles the
  program holds, and the constants \<^verbatim>\<open>1\<close> and \<^verbatim>\<open>-2\<close> convert exactly.
\<close>

definition sigmoid_double :: "ed_state \<Rightarrow> real \<Rightarrow> double" where
  "sigmoid_double s x =
     double_div (Finite 1)
       (double_add (Finite 1)
          (double_exp (double_div (double_mult (Finite (- 2)) (Finite x))
                                  (Finite (sigmoid_steepness s)))))"

text \<open>\<^verbatim>\<open>random\<close>: \<^verbatim>\<open>(rand() % 10000) / 10000.0\<close>; consumes one value of the stream.\<close>

definition random :: "ed_state \<Rightarrow> real \<times> ed_state" where
  "random s = (real (rand_stream s (rand_calls s) mod 10000) / 10000,
               s\<lparr>rand_calls := Suc (rand_calls s)\<rparr>)"

subsection \<open>Array stores\<close>

definition set_weight :: "int \<Rightarrow> int \<Rightarrow> int \<Rightarrow> real \<Rightarrow> ed_state \<Rightarrow> ed_state" where
  "set_weight n c k v s =
     s\<lparr>weights := (weights s)(n := (weights s n)(c := (weights s n c)(k := v)))\<rparr>"

definition set_random_weight :: "int \<Rightarrow> int \<Rightarrow> int \<Rightarrow> real \<Rightarrow> ed_state \<Rightarrow> ed_state" where
  "set_random_weight n c k init_range s =
     (case random s of (r, s') \<Rightarrow> set_weight n c k (init_range * r) s')"

definition set_neuron_input :: "int \<Rightarrow> int \<Rightarrow> real \<Rightarrow> ed_state \<Rightarrow> ed_state" where
  "set_neuron_input n c v s =
     s\<lparr>neuron_input := (neuron_input s)(n := (neuron_input s n)(c := v))\<rparr>"

definition set_neuron_output :: "int \<Rightarrow> int \<Rightarrow> real \<Rightarrow> ed_state \<Rightarrow> ed_state" where
  "set_neuron_output n c v s =
     s\<lparr>neuron_output := (neuron_output s)(n := (neuron_output s n)(c := v))\<rparr>"

definition set_error_delta :: "int \<Rightarrow> int \<Rightarrow> int \<Rightarrow> real \<Rightarrow> ed_state \<Rightarrow> ed_state" where
  "set_error_delta n c ch v s =
     s\<lparr>error_delta := (error_delta s)(n := (error_delta s n)(c := (error_delta s n c)(ch := v)))\<rparr>"

definition set_oscillating :: "int \<Rightarrow> real \<Rightarrow> ed_state \<Rightarrow> ed_state" where
  "set_oscillating c v s = s\<lparr>weights_oscillating := (weights_oscillating s)(c := v)\<rparr>"

subsection \<open>Topology builder (ed\_init\_network.c)\<close>

text \<open>
  The body of the innermost loop of \<^verbatim>\<open>init_network\<close>, for one sub-network \<open>n\<close>, target
  \<open>c\<close> (\<^verbatim>\<open>c_neuron\<close>) and source \<open>k\<close> (\<^verbatim>\<open>s_neuron\<close>), is ten statements, each a
  conditional store into \<^verbatim>\<open>weights[n][c][k]\<close>. Each statement is one definition, named
  after the source's comment on it; \<open>init_connection\<close> runs them in the source's order.
\<close>

text \<open>Bias/threshold connections: \<^verbatim>\<open>if (s_neuron < 2)\<close>.\<close>

definition init_threshold_weight :: "int \<Rightarrow> int \<Rightarrow> int \<Rightarrow> ed_state \<Rightarrow> ed_state" where
  "init_threshold_weight n c k s =
     (if k < 2 then set_random_weight n c k (init_range_threshold s) s else s)"

text \<open>Regular connections: \<^verbatim>\<open>if (s_neuron > 1)\<close>.\<close>

definition init_regular_weight :: "int \<Rightarrow> int \<Rightarrow> int \<Rightarrow> ed_state \<Rightarrow> ed_state" where
  "init_regular_weight n c k s =
     (if k > 1 then set_random_weight n c k (init_range_weight s) s else s)"

text \<open>Second hidden layer input blocking.\<close>

definition block_second_layer_input :: "int \<Rightarrow> int \<Rightarrow> int \<Rightarrow> ed_state \<Rightarrow> ed_state" where
  "block_second_layer_input n c k s =
     (if c > total_neurons s + 1 - size_hidden2 s \<and> k < size_input s + 2 \<and> k \<ge> 2
      then set_weight n c k 0 s else s)"

text \<open>Loop cutting (\<^verbatim>\<open>config_flags[6]\<close>), first statement.\<close>

definition cut_loop :: "int \<Rightarrow> int \<Rightarrow> int \<Rightarrow> ed_state \<Rightarrow> ed_state" where
  "cut_loop n c k s =
     (if config_flags s 6 = 1 \<and> c \<noteq> k \<and> c > size_input s + 2 \<and> k > size_input s + 1
      then set_weight n c k 0 s else s)"

text \<open>Loop cutting, second statement: the source is the output neuron.\<close>

definition cut_loop_from_output :: "int \<Rightarrow> int \<Rightarrow> int \<Rightarrow> ed_state \<Rightarrow> ed_state" where
  "cut_loop_from_output n c k s =
     (if config_flags s 6 = 1 \<and> c > size_input s + 1 \<and> k > size_input s + 1
         \<and> k < size_input s + 3
      then set_weight n c k 0 s else s)"

text \<open>Multi-layer input blocking (\<^verbatim>\<open>config_flags[7]\<close>).\<close>

definition block_multilayer_input :: "int \<Rightarrow> int \<Rightarrow> int \<Rightarrow> ed_state \<Rightarrow> ed_state" where
  "block_multilayer_input n c k s =
     (if config_flags s 7 = 1 \<and> k \<ge> 2 \<and> k < size_input s + 2
         \<and> c \<ge> size_input s + 2 \<and> c < size_input s + 3
      then set_weight n c k 0 s else s)"

text \<open>Second hidden layer internal connections.\<close>

definition init_second_layer_weight :: "int \<Rightarrow> int \<Rightarrow> int \<Rightarrow> ed_state \<Rightarrow> ed_state" where
  "init_second_layer_weight n c k s =
     (if c > total_neurons s + 1 - size_hidden2 s \<and> k \<ge> size_input s + 3
      then set_random_weight n c k (init_range_weight s) s else s)"

text \<open>Self-loop control (\<^verbatim>\<open>config_flags[3]\<close>).\<close>

definition self_loop_control :: "int \<Rightarrow> int \<Rightarrow> int \<Rightarrow> ed_state \<Rightarrow> ed_state" where
  "self_loop_control n c k s =
     (if c = k
      then (if config_flags s 3 = 1 then set_weight n c k 0 s
            else set_random_weight n c k (init_range_weight s) s)
      else s)"

text \<open>Inhibitory input control (\<^verbatim>\<open>config_flags[11]\<close>).\<close>

definition inhibitory_input_control :: "int \<Rightarrow> int \<Rightarrow> int \<Rightarrow> ed_state \<Rightarrow> ed_state" where
  "inhibitory_input_control n c k s =
     (if config_flags s 11 = 0 \<and> k < size_input s + 2 \<and> k smod 2 = 1
      then set_weight n c k 0 s else s)"

text \<open>
  The last statement:
  \<^verbatim>\<open>weights[n][c][k] *= weights_oscillating[k] * weights_oscillating[c]\<close>.
\<close>

definition apply_neuron_types :: "int \<Rightarrow> int \<Rightarrow> int \<Rightarrow> ed_state \<Rightarrow> ed_state" where
  "apply_neuron_types n c k s =
     set_weight n c k (weights s n c k * (weights_oscillating s k * weights_oscillating s c)) s"

definition init_connection :: "int \<Rightarrow> int \<Rightarrow> int \<Rightarrow> ed_state \<Rightarrow> ed_state" where
  "init_connection n c k s =
     fold (\<lambda>statement. statement n c k)
       [init_threshold_weight, init_regular_weight, block_second_layer_input, cut_loop,
        cut_loop_from_output, block_multilayer_input, init_second_layer_weight,
        self_loop_control, inhibitory_input_control, apply_neuron_types] s"

text \<open>The polarity loop: \<^verbatim>\<open>weights_oscillating[c] = ((c + 1) % 2) * 2 - 1\<close>.\<close>

definition init_oscillating :: "int \<Rightarrow> ed_state \<Rightarrow> ed_state" where
  "init_oscillating c s = set_oscillating c (of_int (((c + 1) smod 2) * 2 - 1)) s"

text \<open>One iteration of the loop over the output networks.\<close>

definition init_out_network :: "int \<Rightarrow> ed_state \<Rightarrow> ed_state" where
  "init_out_network n s =
    (let s1 = fold init_oscillating [0 .. total_neurons s + 1] s;
         s2 = set_oscillating (size_input s1 + 2) 1 s1;
         s3 = fold (\<lambda>c t. fold (init_connection n c) [0 .. total_neurons t + 1] t)
                [size_input s2 + 2 .. total_neurons s2 + 1] s2;
         s4 = set_neuron_input n 0 (bias s3) s3
     in set_neuron_input n 1 (bias s4) s4)"

definition init_network :: "int \<Rightarrow> int \<Rightarrow> int \<Rightarrow> int \<Rightarrow> ed_state \<Rightarrow> ed_state" where
  "init_network init_input init_output init_hidden init_hidden2 s =
    (let s1 = s\<lparr>size_input := init_input\<rparr>;
         s2 = s1\<lparr>size_output := init_output\<rparr>;
         s3 = s2\<lparr>size_hidden := init_hidden + init_hidden2\<rparr>;
         s4 = s3\<lparr>size_hidden2 := init_hidden2\<rparr>;
         s5 = s4\<lparr>total_neurons := size_input s4 + 1 + size_hidden s4\<rparr>;
         s6 = fold init_out_network [0 .. size_output s5 - 1] s5;
         s7 = s6\<lparr>error_count := 0\<rparr>
     in s7\<lparr>error_total := 0\<rparr>)"

subsection \<open>Forward engine (ed\_calculation\_output.c)\<close>

text \<open>
  The input pattern is the array the caller passes, a function from its index.
  \<^verbatim>\<open>neuron_input[n][c] = input_pattern_current[(int)(c / 2) - 1]\<close>.
\<close>

definition distribute_input :: "int \<Rightarrow> (int \<Rightarrow> real) \<Rightarrow> int \<Rightarrow> ed_state \<Rightarrow> ed_state" where
  "distribute_input n input_pattern_current c s =
     set_neuron_input n c (input_pattern_current (c sdiv 2 - 1)) s"

definition clear_hidden :: "int \<Rightarrow> int \<Rightarrow> ed_state \<Rightarrow> ed_state" where
  "clear_hidden n c s = set_neuron_input n c 0 s"

definition weighted_sum :: "int \<Rightarrow> int \<Rightarrow> ed_state \<Rightarrow> real" where
  "weighted_sum n c s =
     fold (\<lambda>k acc. acc + weights s n c k * neuron_input s n k) [0 .. total_neurons s + 1] 0"

definition activate :: "int \<Rightarrow> int \<Rightarrow> ed_state \<Rightarrow> ed_state" where
  "activate n c s = set_neuron_output n c (sigmoid s (weighted_sum n c s)) s"

definition feedback :: "int \<Rightarrow> int \<Rightarrow> ed_state \<Rightarrow> ed_state" where
  "feedback n c s = set_neuron_input n c (neuron_output s n c) s"

definition timestep :: "int \<Rightarrow> ed_state \<Rightarrow> ed_state" where
  "timestep n s =
    (let s1 = fold (activate n) [size_input s + 2 .. total_neurons s + 1] s
     in fold (feedback n) [size_input s1 + 2 .. total_neurons s1 + 1] s1)"

definition output_network :: "(int \<Rightarrow> real) \<Rightarrow> int \<Rightarrow> ed_state \<Rightarrow> ed_state" where
  "output_network input_pattern_current n s =
    (let s1 = fold (distribute_input n input_pattern_current) [2 .. size_input s + 1] s;
         s2 = (if config_flags s1 6 \<noteq> 0
               then fold (clear_hidden n) [size_input s1 + 2 .. total_neurons s1 + 1] s1
               else s1)
     in fold (\<lambda>t. timestep n) [1 .. timesteps s2] s2)"

definition calculate_output :: "(int \<Rightarrow> real) \<Rightarrow> ed_state \<Rightarrow> ed_state" where
  "calculate_output input_pattern_current s =
     fold (output_network input_pattern_current) [0 .. size_output s - 1] s"

subsection \<open>Error diffusion unit (ed\_calculation\_learning.c)\<close>

definition broadcast_error :: "int \<Rightarrow> real \<Rightarrow> real \<Rightarrow> int \<Rightarrow> ed_state \<Rightarrow> ed_state" where
  "broadcast_error n error_excitatory error_inhibitory c s =
    (let s1 = set_error_delta n c 0 (error_excitatory * error_amplification s) s
     in set_error_delta n c 1 (error_inhibitory * error_amplification s1) s1)"

text \<open>One iteration of the loop over the outputs (\<^verbatim>\<open>s_neuron\<close> is \<open>n\<close>).\<close>

definition learning_output :: "(int \<Rightarrow> real) \<Rightarrow> int \<Rightarrow> ed_state \<Rightarrow> ed_state" where
  "learning_output target_pattern_current n s =
    (let error_prediction = target_pattern_current n - neuron_output s n (size_input s + 2);
         s1 = s\<lparr>error_total := error_total s + \<bar>error_prediction\<bar>\<rparr>;
         s2 = (if \<bar>error_prediction\<bar> > 0.5 then s1\<lparr>error_count := error_count s1 + 1\<rparr> else s1);
         s3 = (if error_prediction > 0
               then set_error_delta n (size_input s2 + 2) 1 0
                      (set_error_delta n (size_input s2 + 2) 0 error_prediction s2)
               else set_error_delta n (size_input s2 + 2) 1 (- error_prediction)
                      (set_error_delta n (size_input s2 + 2) 0 0 s2));
         error_excitatory = error_delta s3 n (size_input s3 + 2) 0;
         error_inhibitory = error_delta s3 n (size_input s3 + 2) 1
     in fold (broadcast_error n error_excitatory error_inhibitory)
          [size_input s3 + 3 .. total_neurons s3 + 1] s3)"

definition calculate_learning :: "(int \<Rightarrow> real) \<Rightarrow> ed_state \<Rightarrow> ed_state" where
  "calculate_learning target_pattern_current s =
     fold (learning_output target_pattern_current) [0 .. size_output s - 1] s"

subsection \<open>Weight update unit (ed\_calculation\_weight.c)\<close>

text \<open>The body of the innermost loop: \<open>k\<close> is the source index \<^verbatim>\<open>connection\<close>.\<close>

definition update_connection :: "int \<Rightarrow> int \<Rightarrow> int \<Rightarrow> ed_state \<Rightarrow> ed_state" where
  "update_connection n c k s =
    (if weights s n c k \<noteq> 0 then
       (let delta = learning_rate s * neuron_input s n k;
            delta = delta * \<bar>neuron_output s n c\<bar>;
            delta = delta * (1 - \<bar>neuron_output s n c\<bar>)
        in if config_flags s 10 = 1 then
             set_weight n c k
               (weights s n c k
                + delta * weights_oscillating s c * (error_delta s n c 0 - error_delta s n c 1)) s
           else if weights_oscillating s k > 0 then
             set_weight n c k
               (weights s n c k
                + delta * error_delta s n c 0 * weights_oscillating s k * weights_oscillating s c) s
           else
             set_weight n c k
               (weights s n c k
                + delta * error_delta s n c 1 * weights_oscillating s k * weights_oscillating s c) s)
     else s)"

definition calculate_weight :: "ed_state \<Rightarrow> ed_state" where
  "calculate_weight s =
     fold (\<lambda>n s1.
        fold (\<lambda>c s2. fold (update_connection n c) [0 .. total_neurons s2 + 1] s2)
          [size_input s1 + 2 .. total_neurons s1 + 1] s1)
       [0 .. size_output s - 1] s"

subsection \<open>One training example (ed\_calculation\_output.c)\<close>

definition calculate_network :: "(int \<Rightarrow> real) \<Rightarrow> (int \<Rightarrow> real) \<Rightarrow> ed_state \<Rightarrow> ed_state" where
  "calculate_network input_pattern_current target_pattern_current s =
     calculate_weight (calculate_learning target_pattern_current
       (calculate_output input_pattern_current s))"

subsection \<open>Program start and parameter entry (ed\_main.c, ed\_user\_network\_params.c)\<close>

text \<open>
  The globals are statically allocated, so every one of them is zero when \<^verbatim>\<open>main\<close>
  starts; only the values \<^verbatim>\<open>rand()\<close> will return are given.
\<close>

definition startup :: "(nat \<Rightarrow> nat) \<Rightarrow> ed_state" where
  "startup rs = \<lparr>size_input = 0, size_output = 0, size_hidden = 0, size_hidden2 = 0,
     total_neurons = 0, neuron_input = (\<lambda>_ _. 0), neuron_output = (\<lambda>_ _. 0),
     error_delta = (\<lambda>_ _ _. 0), weights = (\<lambda>_ _ _. 0), weights_oscillating = (\<lambda>_. 0),
     learning_rate = 0, bias = 0, sigmoid_steepness = 0, error_amplification = 0,
     error_total = 0, error_residual = 0, error_count = 0, config_flags = (\<lambda>_. 0),
     init_range_weight = 0, init_range_threshold = 0, timesteps = 0,
     rand_stream = rs, rand_calls = 0\<rparr>"

text \<open>
  \<^verbatim>\<open>user_input_network_params\<close> stores thirteen answers (the typed value, or the default
  when the line is empty) in this order: timesteps, weight range, threshold range, the
  flags 7, 10, 6, 3 and 11, sigmoid steepness, error amplification, learning rate, bias
  and residual error.
\<close>

definition user_input_network_params ::
  "int \<Rightarrow> real \<Rightarrow> real \<Rightarrow> int \<Rightarrow> int \<Rightarrow> int \<Rightarrow> int \<Rightarrow> int \<Rightarrow> real \<Rightarrow> real \<Rightarrow> real \<Rightarrow> real \<Rightarrow> real
     \<Rightarrow> ed_state \<Rightarrow> ed_state" where
  "user_input_network_params ts rw rt f7 f10 f6 f3 f11 steep amp lr b res s =
     s\<lparr>timesteps := ts, init_range_weight := rw, init_range_threshold := rt,
       config_flags := (config_flags s)(7 := f7, 10 := f10, 6 := f6, 3 := f3, 11 := f11),
       sigmoid_steepness := steep, error_amplification := amp, learning_rate := lr,
       bias := b, error_residual := res\<rparr>"

text \<open>A stream of \<^verbatim>\<open>rand()\<close> results used in the examples; every value is odd.\<close>

definition rand_example :: "nat \<Rightarrow> nat" where
  "rand_example i = 12345 + 33614 * i"

text \<open>Every answer left at its default.\<close>

definition default_parameters :: ed_state where
  "default_parameters =
     user_input_network_params 2 1 1 1 0 1 1 1 0.4 1 0.8 0.8 0 (startup rand_example)"

text \<open>
  The network of the program's defaults: 4 logical inputs (doubled to 8), 1 output,
  8 hidden neurons, no second hidden layer.
\<close>

definition default_network :: ed_state where
  "default_network = init_network 8 1 8 0 default_parameters"

text \<open>One logical input, one hidden neuron besides the output, and a second layer of one.\<close>

definition second_layer_network :: ed_state where
  "second_layer_network = init_network 2 1 1 1 default_parameters"

text \<open>An odd number of input neurons.\<close>

definition odd_input_network :: ed_state where
  "odd_input_network = init_network 3 1 2 0 default_parameters"

text \<open>
  One training example in the bidirectional update mode (flag 10 set), with one
  timestep, weight range 0.04 and bias 0; the pattern is input 0, target 1.
\<close>

definition bidirectional_parameters :: ed_state where
  "bidirectional_parameters =
     user_input_network_params 1 0.04 1 1 1 1 1 1 0.4 1 0.8 0 0 (startup rand_example)"

definition bidirectional_network :: ed_state where
  "bidirectional_network = init_network 2 1 1 0 bidirectional_parameters"

definition bidirectional_trained :: ed_state where
  "bidirectional_trained = calculate_network (\<lambda>_. 0) (\<lambda>_. 1) bidirectional_network"

text \<open>The default network after a forward pass on the pattern of ones.\<close>

definition default_forward :: ed_state where
  "default_forward = calculate_output (\<lambda>_. 1) default_network"

text \<open>The same after the error diffusion for target 1.\<close>

definition default_diffused :: ed_state where
  "default_diffused = calculate_learning (\<lambda>_. 1) (calculate_output (\<lambda>_. 1) default_network)"

subsection \<open>Notions used in the statements\<close>

text \<open>
  The structural invariants the specification names for a configuration: an even
  \<open>size_input\<close>, a second layer no larger than the total hidden count, no negative
  dimension.
\<close>

definition structurally_valid :: "int \<Rightarrow> int \<Rightarrow> int \<Rightarrow> int \<Rightarrow> bool" where
  "structurally_valid init_input init_output init_hidden init_hidden2 \<longleftrightarrow>
     init_input smod 2 = 0 \<and> init_hidden2 \<le> init_hidden + init_hidden2
     \<and> 0 \<le> init_input \<and> 0 \<le> init_output \<and> 0 \<le> init_hidden \<and> 0 \<le> init_hidden2"

text \<open>
  A configuration within the capacity of the arrays: no more than \<open>MAX_OUTPUT + 1\<close>
  sub-networks, every index that \<^verbatim>\<open>init_network\<close> derives from the dimensions (they run
  from 0 and from \<open>size_input + 2\<close> up to \<open>total_neurons + 1\<close>) between 0 and
  \<open>MAX_NETWORK\<close>, and hidden counts small enough for no sum to overflow.
\<close>

definition within_capacity :: "int \<Rightarrow> int \<Rightarrow> int \<Rightarrow> int \<Rightarrow> bool" where
  "within_capacity init_input init_output init_hidden init_hidden2 \<longleftrightarrow>
     init_output \<le> MAX_OUTPUT + 1
     \<and> - 2 \<le> init_input \<and> init_input + 2 \<le> MAX_NETWORK
     \<and> \<bar>init_hidden\<bar> \<le> MAX_NETWORK \<and> \<bar>init_hidden2\<bar> \<le> MAX_NETWORK
     \<and> init_input + 1 + (init_hidden + init_hidden2) + 1 \<le> MAX_NETWORK"

text \<open>
  The (sub-network, target, source) triples in the order in which \<^verbatim>\<open>calculate_weight\<close>
  visits them, and the loop body applied to one triple.
\<close>

definition connections :: "ed_state \<Rightarrow> (int \<times> int \<times> int) list" where
  "connections s =
     concat (map (\<lambda>n. concat (map (\<lambda>c. map (\<lambda>k. (n, c, k)) [0 .. total_neurons s + 1])
                                  [size_input s + 2 .. total_neurons s + 1]))
                 [0 .. size_output s - 1])"

definition update_at :: "int \<times> int \<times> int \<Rightarrow> ed_state \<Rightarrow> ed_state" where
  "update_at p s = (case p of (n, c, k) \<Rightarrow> update_connection n c k s)"

text \<open>
  The two channels the split of the prediction error gives (the values the source caches
  in \<^verbatim>\<open>error_excitatory\<close> and \<^verbatim>\<open>error_inhibitory\<close>).
\<close>

definition error_excitatory :: "real \<Rightarrow> real" where
  "error_excitatory e = (if e > 0 then e else 0)"

definition error_inhibitory :: "real \<Rightarrow> real" where
  "error_inhibitory e = (if e > 0 then 0 else - e)"

text \<open>Static initialisation: every array is zero when the program starts.\<close>

definition zero_initialised :: "ed_state \<Rightarrow> bool" where
  "zero_initialised s \<longleftrightarrow>
     neuron_input s = (\<lambda>_ _. 0) \<and> neuron_output s = (\<lambda>_ _. 0)
     \<and> error_delta s = (\<lambda>_ _ _. 0) \<and> weights s = (\<lambda>_ _ _. 0)
     \<and> weights_oscillating s = (\<lambda>_. 0)"

text \<open>
  The states of a training run in selective mode: \<^verbatim>\<open>init_network\<close> on the zeroed arrays
  with non-negative ranges, learning rate, amplification and bias, a nonzero steepness and
  flag 10 not 1, followed by forward passes on non-negative patterns, error diffusions and
  weight updates in any order.
\<close>

inductive selective_training :: "ed_state \<Rightarrow> bool" where
  initialised:
    "zero_initialised s \<Longrightarrow> 0 \<le> init_range_weight s \<Longrightarrow> 0 \<le> init_range_threshold s \<Longrightarrow>
     config_flags s 10 \<noteq> 1 \<Longrightarrow> 0 \<le> learning_rate s \<Longrightarrow> 0 \<le> error_amplification s \<Longrightarrow>
     0 \<le> bias s \<Longrightarrow> sigmoid_steepness s \<noteq> 0 \<Longrightarrow>
     selective_training (init_network init_input init_output init_hidden init_hidden2 s)"
| forward:
    "selective_training s \<Longrightarrow> (\<forall>i. 0 \<le> input_pattern_current i) \<Longrightarrow>
     selective_training (calculate_output input_pattern_current s)"
| diffuse:
    "selective_training s \<Longrightarrow> selective_training (calculate_learning target_pattern_current s)"
| update:
    "selective_training s \<Longrightarrow> selective_training (calculate_weight s)"

subsection \<open>Notions used in the proofs\<close>

text \<open>
  Frames. A loop that stores into a few arrays only leaves the state equal to the one
  before it once those arrays are blanked: \<open>only_weights\<close> for the weight update,
  \<open>learning_frame\<close> for the error diffusion, \<open>output_frame\<close> for the forward pass,
  \<open>conn_frame\<close> for the statements of one connection and \<open>init_frame\<close> for an
  iteration of \<^verbatim>\<open>init_network\<close>.
\<close>

definition only_weights :: "ed_state \<Rightarrow> ed_state \<Rightarrow> bool" where
  "only_weights s t \<longleftrightarrow> t\<lparr>weights := weights s\<rparr> = s"

definition learning_frame :: "ed_state \<Rightarrow> ed_state" where
  "learning_frame s = s\<lparr>error_delta := (\<lambda>_ _ _. 0), error_total := 0, error_count := 0\<rparr>"

definition output_frame :: "ed_state \<Rightarrow> ed_state" where
  "output_frame s = s\<lparr>neuron_input := (\<lambda>_ _. 0), neuron_output := (\<lambda>_ _. 0)\<rparr>"

definition conn_frame :: "ed_state \<Rightarrow> ed_state" where
  "conn_frame s = s\<lparr>weights := (\<lambda>_ _ _. 0), rand_calls := 0\<rparr>"

definition init_frame :: "ed_state \<Rightarrow> ed_state" where
  "init_frame s = s\<lparr>weights := (\<lambda>_ _ _. 0), rand_calls := 0,
     weights_oscillating := (\<lambda>_. 0), neuron_input := (\<lambda>_ _. 0)\<rparr>"

text \<open>The two counter updates at the head of an iteration of \<^verbatim>\<open>calculate_learning\<close>.\<close>

definition count_error :: "real \<Rightarrow> ed_state \<Rightarrow> ed_state" where
  "count_error e s =
     (if \<bar>e\<bar> > 0.5 then s\<lparr>error_total := error_total s + \<bar>e\<bar>, error_count := error_count s + 1\<rparr>
      else s\<lparr>error_total := error_total s + \<bar>e\<bar>\<rparr>)"

text \<open>The open unit interval, and a forward pass that stores only values of it.\<close>

definition unit_open :: "real \<Rightarrow> bool" where
  "unit_open v \<longleftrightarrow> 0 < v \<and> v < 1"

definition stored_open :: "ed_state \<Rightarrow> ed_state \<Rightarrow> bool" where
  "stored_open s t \<longleftrightarrow>
     (\<forall>n c. neuron_output t n c = neuron_output s n c \<or> unit_open (neuron_output t n c))"

text \<open>Activations within bounds: inputs non-negative, outputs in the closed unit interval.\<close>

definition activations_bounded :: "ed_state \<Rightarrow> bool" where
  "activations_bounded t \<longleftrightarrow>
     (\<forall>n i. 0 \<le> neuron_input t n i) \<and> (\<forall>n c. 0 \<le> neuron_output t n c \<and> neuron_output t n c \<le> 1)"

text \<open>The value the \<open>j\<close>-th call of \<^verbatim>\<open>random\<close> returns.\<close>

definition draw :: "ed_state \<Rightarrow> nat \<Rightarrow> real" where
  "draw s j = real (rand_stream s j mod 10000) / 10000"

text \<open>A state in the middle of \<open>init_connection\<close>: same frame, a known own cell.\<close>

definition cell_is :: "ed_state \<Rightarrow> int \<Rightarrow> int \<Rightarrow> int \<Rightarrow> (real \<Rightarrow> bool) \<Rightarrow> ed_state \<Rightarrow> bool" where
  "cell_is s n c k P t \<longleftrightarrow> conn_frame t = conn_frame s \<and> P (weights t n c k)"

text \<open>The polarity vector the first two statements of an iteration of \<^verbatim>\<open>init_network\<close> leave.\<close>

definition polarity :: "int \<Rightarrow> int \<Rightarrow> (int \<Rightarrow> real) \<Rightarrow> int \<Rightarrow> real" where
  "polarity inp tot f i =
     (if i = inp + 2 then 1
      else if 0 \<le> i \<and> i \<le> tot + 1 then of_int (((i + 1) smod 2) * 2 - 1)
      else f i)"

text \<open>
  The connection loops of one iteration of \<^verbatim>\<open>init_network\<close>, and the same as one loop
  over the (target, source) pairs with the bounds fixed.
\<close>

definition init_connections :: "int \<Rightarrow> ed_state \<Rightarrow> ed_state" where
  "init_connections n s =
     fold (\<lambda>c t. fold (init_connection n c) [0 .. total_neurons t + 1] t)
       [size_input s + 2 .. total_neurons s + 1] s"

definition pairs :: "ed_state \<Rightarrow> (int \<times> int) list" where
  "pairs s = concat (map (\<lambda>c. map (Pair c) [0 .. total_neurons s + 1])
                      [size_input s + 2 .. total_neurons s + 1])"

definition init_pair :: "int \<Rightarrow> int \<times> int \<Rightarrow> ed_state \<Rightarrow> ed_state" where
  "init_pair n p s = (case p of (c, k) \<Rightarrow> init_connection n c k s)"

text \<open>The five assignments at the head of \<^verbatim>\<open>init_network\<close>.\<close>

definition set_dimensions :: "int \<Rightarrow> int \<Rightarrow> int \<Rightarrow> int \<Rightarrow> ed_state \<Rightarrow> ed_state" where
  "set_dimensions ii io ih ih2 s =
     s\<lparr>size_input := ii, size_output := io, size_hidden := ih + ih2, size_hidden2 := ih2,
       total_neurons := ii + 1 + (ih + ih2)\<rparr>"

text \<open>The states the loop over the output networks passes through.\<close>

definition building :: "int \<Rightarrow> int \<Rightarrow> int \<Rightarrow> int \<Rightarrow> ed_state \<Rightarrow> ed_state \<Rightarrow> bool" where
  "building ii io ih ih2 s t \<longleftrightarrow>
     init_frame t = init_frame (set_dimensions ii io ih ih2 s)
     \<and> (weights_oscillating t = weights_oscillating s
        \<or> weights_oscillating t = polarity ii (ii + 1 + (ih + ih2)) (weights_oscillating s))"

text \<open>What a training run in selective mode keeps true.\<close>

definition sign_invariant :: "ed_state \<Rightarrow> bool" where
  "sign_invariant s \<longleftrightarrow>
     (\<forall>n c k. \<exists>m\<ge>0. weights s n c k = m * (weights_oscillating s k * weights_oscillating s c))
     \<and> (\<forall>i. weights_oscillating s i \<in> {- 1, 0, 1})
     \<and> (\<forall>n i. 0 \<le> neuron_input s n i)
     \<and> (\<forall>n c. 0 \<le> neuron_output s n c \<and> neuron_output s n c \<le> 1)
     \<and> (\<forall>n c ch. 0 \<le> error_delta s n c ch)
     \<and> 0 \<le> learning_rate s \<and> 0 \<le> error_amplification s \<and> config_flags s 10 \<noteq> 1"

section \<open>Weight update: frame, pointwise form, order independence\<close>

lemma only_weights_refl: "only_weights s s"
  by (simp add: only_weights_def)

lemma only_weights_trans: "only_weights s t \<Longrightarrow> only_weights t u \<Longrightarrow> only_weights s u"
  unfolding only_weights_def
  by (metis ed_state.update_convs(9) ed_state.surjective ed_state.select_convs)

lemma only_weights_set_weight: "only_weights s (set_weight n c k v s)"
  by (simp add: only_weights_def set_weight_def)

lemma only_weights_fields:
  assumes "only_weights s t"
  shows "size_input t = size_input s" "size_output t = size_output s"
    "total_neurons t = total_neurons s" "neuron_input t = neuron_input s"
    "neuron_output t = neuron_output s" "error_delta t = error_delta s"
    "weights_oscillating t = weights_oscillating s" "learning_rate t = learning_rate s"
    "error_total t = error_total s" "error_count t = error_count s"
    "config_flags t = config_flags s"
proof -
  from assms have e: "t\<lparr>weights := weights s\<rparr> = s" by (simp add: only_weights_def)
  from arg_cong [OF e, of size_input] show "size_input t = size_input s" by simp
  from arg_cong [OF e, of size_output] show "size_output t = size_output s" by simp
  from arg_cong [OF e, of total_neurons] show "total_neurons t = total_neurons s" by simp
  from arg_cong [OF e, of neuron_input] show "neuron_input t = neuron_input s" by simp
  from arg_cong [OF e, of neuron_output] show "neuron_output t = neuron_output s" by simp
  from arg_cong [OF e, of error_delta] show "error_delta t = error_delta s" by simp
  from arg_cong [OF e, of weights_oscillating] show "weights_oscillating t = weights_oscillating s" by simp
  from arg_cong [OF e, of learning_rate] show "learning_rate t = learning_rate s" by simp
  from arg_cong [OF e, of error_total] show "error_total t = error_total s" by simp
  from arg_cong [OF e, of error_count] show "error_count t = error_count s" by simp
  from arg_cong [OF e, of config_flags] show "config_flags t = config_flags s" by simp
qed

lemma only_weights_update_connection: "only_weights s (update_connection n c k s)"
  by (simp add: update_connection_def Let_def only_weights_set_weight only_weights_refl)

lemma weights_set_weight:
  "weights (set_weight n c k v s) n' c' k' = (if n' = n \<and> c' = c \<and> k' = k then v else weights s n' c' k')"
  by (simp add: set_weight_def)

lemma update_connection_other:
  "(n', c', k') \<noteq> (n, c, k) \<Longrightarrow> weights (update_connection n c k s) n' c' k' = weights s n' c' k'"
  by (auto simp add: update_connection_def Let_def weights_set_weight)

lemma update_connection_cong:
  "only_weights s t \<Longrightarrow> weights t n c k = weights s n c k \<Longrightarrow>
   weights (update_connection n c k t) n c k = weights (update_connection n c k s) n c k"
  by (simp add: update_connection_def Let_def weights_set_weight only_weights_fields)

lemma fold_agree:
  assumes "P s"
    and "\<And>x t. P t \<Longrightarrow> P (f x t)"
    and "\<And>x t. P t \<Longrightarrow> f x t = g x t"
  shows "fold f xs s = fold g xs s \<and> P (fold f xs s)"
  using assms(1)
proof (induction xs arbitrary: s)
  case Nil
  then show ?case by simp
next
  case (Cons x xs)
  have "P (f x s)" by (rule assms(2) [OF Cons.prems])
  moreover have "f x s = g x s" by (rule assms(3) [OF Cons.prems])
  ultimately show ?case using Cons.IH [of "f x s"] by auto
qed

lemma only_weights_fold:
  assumes "\<And>x t. only_weights t (f x t)"
  shows "only_weights s (fold f xs s)"
proof (induction xs arbitrary: s)
  case Nil
  show ?case by (simp add: only_weights_refl)
next
  case (Cons x xs)
  have "only_weights s (f x s)" by (rule assms)
  moreover have "only_weights (f x s) (fold f xs (f x s))" by (rule Cons.IH)
  ultimately show ?case by (simp add: only_weights_trans)
qed

lemma only_weights_update_at: "only_weights s (update_at p s)"
  by (cases p) (simp add: update_at_def only_weights_update_connection)

lemma fold_concat_map: "fold f (concat (map g xs)) = fold (\<lambda>x. fold f (g x)) xs"
  by (induction xs) simp_all

lemma update_at_triple: "update_at (n, c, k) = update_connection n c k"
  by (rule ext) (simp add: update_at_def)

lemma fold_connections:
  "fold update_at (connections s) t =
   fold (\<lambda>n. fold (\<lambda>c. fold (update_connection n c) [0 .. total_neurons s + 1])
                [size_input s + 2 .. total_neurons s + 1])
        [0 .. size_output s - 1] t"
proof -
  have inner: "fold update_at (map (\<lambda>k. (n, c, k)) ks) = fold (update_connection n c) ks"
    for n c ks
    by (simp add: fold_map comp_def update_at_triple)
  have middle: "fold update_at (concat (map (\<lambda>c. map (\<lambda>k. (n, c, k)) ks) cs))
      = fold (\<lambda>c. fold (update_connection n c) ks) cs" for n cs ks
    by (simp add: fold_concat_map inner)
  show ?thesis
    unfolding connections_def
    by (simp add: fold_concat_map inner)
qed

lemma calculate_weight_flat: "calculate_weight s = fold update_at (connections s) s"
proof -
  let ?ks = "[0 .. total_neurons s + 1]"
  let ?cs = "[size_input s + 2 .. total_neurons s + 1]"
  let ?P = "only_weights s"
  have ks: "?P t \<Longrightarrow> ?P (fold (update_connection n c) ?ks t)" for n c t
    by (rule only_weights_trans [OF _ only_weights_fold]) (simp_all add: only_weights_update_connection)
  have c_step: "?P t \<Longrightarrow> fold (update_connection n c) [0 .. total_neurons t + 1] t
      = fold (update_connection n c) ?ks t" for n c t
    by (simp add: only_weights_fields)
  have c_inv: "?P t \<Longrightarrow> ?P (fold (update_connection n c) [0 .. total_neurons t + 1] t)" for n c t
    using ks c_step by simp
  have c_fold: "?P t \<Longrightarrow>
      fold (\<lambda>c s2. fold (update_connection n c) [0 .. total_neurons s2 + 1] s2) cs t
      = fold (\<lambda>c. fold (update_connection n c) ?ks) cs t
      \<and> ?P (fold (\<lambda>c s2. fold (update_connection n c) [0 .. total_neurons s2 + 1] s2) cs t)"
    for n cs t
    by (rule fold_agree [where P = ?P]) (assumption, erule c_inv, erule c_step)
  have n_step: "?P t \<Longrightarrow>
      fold (\<lambda>c s2. fold (update_connection n c) [0 .. total_neurons s2 + 1] s2)
        [size_input t + 2 .. total_neurons t + 1] t
      = fold (\<lambda>c. fold (update_connection n c) ?ks) ?cs t" for n t
    using c_fold [of t n ?cs] by (simp add: only_weights_fields)
  have n_inv: "?P t \<Longrightarrow>
      ?P (fold (\<lambda>c s2. fold (update_connection n c) [0 .. total_neurons s2 + 1] s2)
        [size_input t + 2 .. total_neurons t + 1] t)" for n t
    using c_fold [of t n "[size_input t + 2 .. total_neurons t + 1]"] by blast
  have "fold (\<lambda>n s1. fold (\<lambda>c s2. fold (update_connection n c) [0 .. total_neurons s2 + 1] s2)
            [size_input s1 + 2 .. total_neurons s1 + 1] s1) ns s
      = fold (\<lambda>n. fold (\<lambda>c. fold (update_connection n c) ?ks) ?cs) ns s" for ns
    using fold_agree [where P = ?P and s = s, OF only_weights_refl]
      n_inv n_step by (metis (no_types, lifting))
  then show ?thesis
    by (simp add: calculate_weight_def fold_connections)
qed

lemma set_weight_same: "set_weight n c k (weights s n c k) s = s"
  by (simp add: set_weight_def)

lemma set_weight_commute:
  "(n, c, k) \<noteq> (n', c', k') \<Longrightarrow>
   set_weight n c k v (set_weight n' c' k' v' s) = set_weight n' c' k' v' (set_weight n c k v s)"
  by (auto simp add: set_weight_def fun_eq_iff)

lemma update_connection_store:
  "update_connection n c k s = set_weight n c k (weights (update_connection n c k s) n c k) s"
proof (cases "weights s n c k = 0")
  case True
  then show ?thesis
    using set_weight_same [of n c k s] by (simp add: update_connection_def)
next
  case False
  then show ?thesis
    by (simp add: update_connection_def Let_def weights_set_weight)
qed

lemma update_connection_commute:
  "update_connection n c k (update_connection n' c' k' s)
   = update_connection n' c' k' (update_connection n c k s)"
proof (cases "(n, c, k) = (n', c', k')")
  case True
  then show ?thesis by simp
next
  case False
  let ?v = "weights (update_connection n c k s) n c k"
  let ?v' = "weights (update_connection n' c' k' s) n' c' k'"
  have a: "weights (update_connection n c k (update_connection n' c' k' s)) n c k = ?v"
    using False
    by (intro update_connection_cong only_weights_update_connection update_connection_other) auto
  have b: "weights (update_connection n' c' k' (update_connection n c k s)) n' c' k' = ?v'"
    using False
    by (intro update_connection_cong only_weights_update_connection update_connection_other) auto
  have "update_connection n c k (update_connection n' c' k' s)
        = set_weight n c k ?v (set_weight n' c' k' ?v' s)"
    by (subst update_connection_store) (simp add: a update_connection_store [symmetric])
  also have "\<dots> = set_weight n' c' k' ?v' (set_weight n c k ?v s)"
    by (rule set_weight_commute [OF False])
  also have "\<dots> = update_connection n' c' k' (update_connection n c k s)"
    by (subst (3) update_connection_store) (simp add: b update_connection_store [symmetric])
  finally show ?thesis .
qed

lemma update_at_commute: "update_at p \<circ> update_at q = update_at q \<circ> update_at p"
  by (cases p; cases q) (simp add: fun_eq_iff update_at_def update_connection_commute)

lemma update_at_other: "p \<noteq> q \<Longrightarrow>
  weights (update_at q s) (fst p) (fst (snd p)) (snd (snd p)) = weights s (fst p) (fst (snd p)) (snd (snd p))"
  by (cases p; cases q) (simp add: update_at_def update_connection_other)

lemma fold_update_at_other:
  "(n, c, k) \<notin> set ps \<Longrightarrow> weights (fold update_at ps s) n c k = weights s n c k"
proof (induction ps arbitrary: s)
  case Nil
  show ?case by simp
next
  case (Cons p ps)
  then have "p \<noteq> (n, c, k)" "(n, c, k) \<notin> set ps" by auto
  with Cons.IH [of "update_at p s"] update_at_other [of "(n, c, k)" p s]
  show ?case by simp
qed

lemma fold_update_at_member:
  "distinct ps \<Longrightarrow> (n, c, k) \<in> set ps \<Longrightarrow>
   weights (fold update_at ps s) n c k = weights (update_connection n c k s) n c k"
proof (induction ps arbitrary: s)
  case Nil
  then show ?case by simp
next
  case (Cons p ps)
  show ?case
  proof (cases "p = (n, c, k)")
    case True
    with Cons.prems have "(n, c, k) \<notin> set ps" by simp
    then show ?thesis using True
      by (simp add: fold_update_at_other update_at_triple)
  next
    case False
    with Cons.prems have m: "(n, c, k) \<in> set ps" and d: "distinct ps" by auto
    have "weights (update_at p s) n c k = weights s n c k"
      using update_at_other [of "(n, c, k)" p s] False by simp
    then have "weights (update_connection n c k (update_at p s)) n c k
        = weights (update_connection n c k s) n c k"
      by (intro update_connection_cong only_weights_update_at)
    with Cons.IH [OF d m, of "update_at p s"] show ?thesis by simp
  qed
qed

lemma distinct_tagged:
  assumes "distinct xs" and "\<And>x. x \<in> set xs \<Longrightarrow> distinct (g x)"
  shows "distinct (concat (map (\<lambda>x. map (Pair x) (g x)) xs))"
  using assms
proof (induction xs)
  case Nil
  show ?case by simp
next
  case (Cons x xs)
  have "distinct (map (Pair x) (g x))"
    using Cons.prems(2) [of x] by (simp add: distinct_map inj_on_def)
  moreover have "distinct (concat (map (\<lambda>x. map (Pair x) (g x)) xs))"
    using Cons by simp
  moreover have "set (map (Pair x) (g x)) \<inter> set (concat (map (\<lambda>x. map (Pair x) (g x)) xs)) = {}"
    using Cons.prems(1) by auto
  ultimately show ?case by simp
qed

lemma distinct_connections: "distinct (connections s)"
proof -
  let ?ks = "[0 .. total_neurons s + 1]"
  let ?cs = "[size_input s + 2 .. total_neurons s + 1]"
  have "connections s
      = concat (map (\<lambda>n. map (Pair n) (concat (map (\<lambda>c. map (Pair c) ?ks) ?cs)))
                 [0 .. size_output s - 1])"
    by (simp add: connections_def map_concat comp_def)
  moreover have "distinct (concat (map (\<lambda>c. map (Pair c) ?ks) ?cs))"
    by (rule distinct_tagged) simp_all
  ultimately show ?thesis
    by (simp only: distinct_tagged distinct_upto)
qed

lemma set_connections:
  "(n, c, k) \<in> set (connections s) \<longleftrightarrow>
     0 \<le> n \<and> n < size_output s \<and> size_input s + 2 \<le> c \<and> c \<le> total_neurons s + 1
     \<and> 0 \<le> k \<and> k \<le> total_neurons s + 1"
  by (auto simp add: connections_def image_iff)

lemma only_weights_calculate_weight: "only_weights s (calculate_weight s)"
  unfolding calculate_weight_flat
  by (rule only_weights_fold) (rule only_weights_update_at)

lemma calculate_weight_weights:
  "weights (calculate_weight s) n c k =
     (if (n, c, k) \<in> set (connections s) then weights (update_connection n c k s) n c k
      else weights s n c k)"
  by (simp add: calculate_weight_flat fold_update_at_member fold_update_at_other
      distinct_connections)

lemma update_connection_zero:
  "weights s n c k = 0 \<Longrightarrow> weights (update_connection n' c' k' s) n c k = 0"
  by (cases "(n, c, k) = (n', c', k')")
     (auto simp add: update_connection_other, simp add: update_connection_def)

section \<open>Error diffusion: the stored channels\<close>

lemma fold_cell:
  assumes "distinct xs" and "x \<in> set xs" and "R s"
    and step: "\<And>y t. R t \<Longrightarrow> R (f y t)"
    and other: "\<And>y t. y \<noteq> x \<Longrightarrow> obs (f y t) = obs t"
    and own: "\<And>t. R t \<Longrightarrow> obs t = obs s \<Longrightarrow> P (obs (f x t))"
  shows "P (obs (fold f xs s))"
proof -
  have rest: "x \<notin> set ys \<Longrightarrow> obs (fold f ys t) = obs t" for ys t
  proof (induction ys arbitrary: t)
    case Nil
    show ?case by simp
  next
    case (Cons y ys)
    then have "y \<noteq> x" "x \<notin> set ys" by auto
    then show ?case using Cons.IH [of "f y t"] other [of y t] by simp
  qed
  have "distinct ys \<Longrightarrow> x \<in> set ys \<Longrightarrow> R t \<Longrightarrow> obs t = obs s \<Longrightarrow> P (obs (fold f ys t))"
    for ys t
  proof (induction ys arbitrary: t)
    case Nil
    then show ?case by simp
  next
    case (Cons y ys)
    show ?case
    proof (cases "y = x")
      case True
      with Cons.prems have "x \<notin> set ys" by simp
      then have "obs (fold f (y # ys) t) = obs (f x t)" using True by (simp add: rest)
      then show ?thesis using own [OF Cons.prems(3,4)] by simp
    next
      case False
      with Cons.prems have "distinct ys" "x \<in> set ys" by auto
      moreover have "R (f y t)" by (rule step [OF Cons.prems(3)])
      moreover have "obs (f y t) = obs s" using other [of y t] False Cons.prems(4) by simp
      ultimately show ?thesis using Cons.IH [of "f y t"] by simp
    qed
  qed
  with assms(1-3) show ?thesis by simp
qed

lemma fold_untouched:
  assumes "x \<notin> set xs" and "\<And>y t. y \<noteq> x \<Longrightarrow> obs (f y t) = obs t"
  shows "obs (fold f xs s) = obs s"
  using assms(1)
proof (induction xs arbitrary: s)
  case Nil
  show ?case by simp
next
  case (Cons y ys)
  then have "y \<noteq> x" "x \<notin> set ys" by auto
  then show ?case using Cons.IH [of "f y s"] assms(2) [of y s] by simp
qed

lemma fold_frame:
  assumes "\<And>x t. fr (f x t) = fr t"
  shows "fr (fold f xs s) = fr s"
  by (induction xs arbitrary: s) (simp_all add: assms)

lemma learning_frame_fields:
  assumes "learning_frame t = learning_frame s"
  shows "size_input t = size_input s" "size_output t = size_output s"
    "total_neurons t = total_neurons s" "neuron_input t = neuron_input s"
    "neuron_output t = neuron_output s" "weights t = weights s"
    "weights_oscillating t = weights_oscillating s" "learning_rate t = learning_rate s"
    "error_amplification t = error_amplification s" "config_flags t = config_flags s"
    "sigmoid_steepness t = sigmoid_steepness s" "timesteps t = timesteps s"
proof -
  note e = assms
  from arg_cong [OF e, of size_input] show "size_input t = size_input s" by (simp add: learning_frame_def)
  from arg_cong [OF e, of size_output] show "size_output t = size_output s" by (simp add: learning_frame_def)
  from arg_cong [OF e, of total_neurons] show "total_neurons t = total_neurons s" by (simp add: learning_frame_def)
  from arg_cong [OF e, of neuron_input] show "neuron_input t = neuron_input s" by (simp add: learning_frame_def)
  from arg_cong [OF e, of neuron_output] show "neuron_output t = neuron_output s" by (simp add: learning_frame_def)
  from arg_cong [OF e, of weights] show "weights t = weights s" by (simp add: learning_frame_def)
  from arg_cong [OF e, of weights_oscillating] show "weights_oscillating t = weights_oscillating s" by (simp add: learning_frame_def)
  from arg_cong [OF e, of learning_rate] show "learning_rate t = learning_rate s" by (simp add: learning_frame_def)
  from arg_cong [OF e, of error_amplification] show "error_amplification t = error_amplification s" by (simp add: learning_frame_def)
  from arg_cong [OF e, of config_flags] show "config_flags t = config_flags s" by (simp add: learning_frame_def)
  from arg_cong [OF e, of sigmoid_steepness] show "sigmoid_steepness t = sigmoid_steepness s" by (simp add: learning_frame_def)
  from arg_cong [OF e, of timesteps] show "timesteps t = timesteps s" by (simp add: learning_frame_def)
qed

lemma learning_frame_set_error_delta:
  "learning_frame (set_error_delta n c ch v s) = learning_frame s"
  by (simp add: learning_frame_def set_error_delta_def)

lemma error_delta_set_error_delta:
  "error_delta (set_error_delta n c ch v s) n' c' ch' =
     (if n' = n \<and> c' = c \<and> ch' = ch then v else error_delta s n' c' ch')"
  by (simp add: set_error_delta_def)

lemma learning_frame_broadcast_error:
  "learning_frame (broadcast_error n e0 e1 c s) = learning_frame s"
  by (simp add: broadcast_error_def Let_def learning_frame_set_error_delta)

lemma learning_frame_fold_broadcast:
  "learning_frame (fold (broadcast_error n e0 e1) cs s) = learning_frame s"
  by (rule fold_frame) (rule learning_frame_broadcast_error)

lemma error_delta_broadcast_error:
  "error_delta (broadcast_error n e0 e1 c s) n' c' ch =
     (if n' = n \<and> c' = c \<and> ch = 0 then e0 * error_amplification s
      else if n' = n \<and> c' = c \<and> ch = 1 then e1 * error_amplification s
      else error_delta s n' c' ch)"
  by (simp add: broadcast_error_def Let_def error_delta_set_error_delta set_error_delta_def)

lemma error_delta_fold_broadcast:
  "error_delta (fold (broadcast_error n e0 e1) cs s) n' c' ch =
     (if n' = n \<and> c' \<in> set cs \<and> ch = 0 then e0 * error_amplification s
      else if n' = n \<and> c' \<in> set cs \<and> ch = 1 then e1 * error_amplification s
      else error_delta s n' c' ch)"
proof (induction cs arbitrary: s)
  case Nil
  show ?case by simp
next
  case (Cons c cs)
  have "error_amplification (broadcast_error n e0 e1 c s) = error_amplification s"
    by (rule learning_frame_fields [OF learning_frame_broadcast_error])
  then show ?case
    by (simp add: Cons.IH error_delta_broadcast_error)
qed

lemma learning_frame_count_error: "learning_frame (count_error e s) = learning_frame s"
  by (simp add: count_error_def learning_frame_def)

lemma error_delta_count_error: "error_delta (count_error e s) = error_delta s"
  by (simp add: count_error_def)

lemma learning_output_unfold:
  "learning_output tgt n s =
    (let e = tgt n - neuron_output s n (size_input s + 2) in
     fold (broadcast_error n (error_excitatory e) (error_inhibitory e))
       [size_input s + 3 .. total_neurons s + 1]
       (set_error_delta n (size_input s + 2) 1 (error_inhibitory e)
         (set_error_delta n (size_input s + 2) 0 (error_excitatory e) (count_error e s))))"
proof -
  have a: "size_input (set_error_delta n c ch v t) = size_input t"
    "total_neurons (set_error_delta n c ch v t) = total_neurons t" for n c ch v t
    by (simp_all add: set_error_delta_def)
  have b: "size_input (count_error e t) = size_input t"
    "total_neurons (count_error e t) = total_neurons t" for e t
    by (simp_all add: count_error_def)
  show ?thesis
    by (cases "tgt n - neuron_output s n (size_input s + 2) > 0")
       (simp_all add: learning_output_def Let_def a b error_delta_set_error_delta
          error_excitatory_def error_inhibitory_def count_error_def)
qed

lemma learning_frame_learning_output:
  "learning_frame (learning_output tgt n s) = learning_frame s"
  by (simp add: learning_output_unfold Let_def learning_frame_fold_broadcast
      learning_frame_set_error_delta learning_frame_count_error)

lemma error_delta_learning_output:
  "error_delta (learning_output tgt n s) n' c ch =
    (let e = tgt n - neuron_output s n (size_input s + 2) in
     if n' = n \<and> c = size_input s + 2 \<and> ch = 0 then error_excitatory e
     else if n' = n \<and> c = size_input s + 2 \<and> ch = 1 then error_inhibitory e
     else if n' = n \<and> size_input s + 3 \<le> c \<and> c \<le> total_neurons s + 1 \<and> ch = 0
       then error_excitatory e * error_amplification s
     else if n' = n \<and> size_input s + 3 \<le> c \<and> c \<le> total_neurons s + 1 \<and> ch = 1
       then error_inhibitory e * error_amplification s
     else error_delta s n' c ch)"
proof -
  have amp: "error_amplification (set_error_delta n c ch v (set_error_delta n' c' ch' v' (count_error e s)))
      = error_amplification s" for n c ch v n' c' ch' v' e
    by (simp add: set_error_delta_def count_error_def)
  show ?thesis
    by (simp add: learning_output_unfold Let_def error_delta_fold_broadcast amp
        error_delta_set_error_delta error_delta_count_error)
qed

lemma calculate_learning_frame:
  "learning_frame (calculate_learning tgt s) = learning_frame s"
  unfolding calculate_learning_def
  by (rule fold_frame) (rule learning_frame_learning_output)

lemma learning_output_other:
  "y \<noteq> n \<Longrightarrow> error_delta (learning_output tgt y t) n = error_delta t n"
  by (intro ext) (simp add: error_delta_learning_output Let_def)

lemma learning_output_own:
  assumes "learning_frame t = learning_frame s" and "error_delta t n = error_delta s n"
  shows "error_delta (learning_output tgt n t) n = error_delta (learning_output tgt n s) n"
  by (intro ext)
     (simp add: error_delta_learning_output Let_def learning_frame_fields [OF assms(1)] assms(2))

lemma calculate_learning_delta:
  assumes "0 \<le> n" and "n < size_output s"
  shows "error_delta (calculate_learning tgt s) n = error_delta (learning_output tgt n s) n"
  unfolding calculate_learning_def
proof (rule fold_cell [where R = "\<lambda>t. learning_frame t = learning_frame s"
        and obs = "\<lambda>t. error_delta t n" and x = n])
  show "distinct [0 .. size_output s - 1]" by simp
  show "n \<in> set [0 .. size_output s - 1]" using assms by simp
  show "learning_frame s = learning_frame s" by simp
  show "learning_frame (learning_output tgt y t) = learning_frame s"
    if "learning_frame t = learning_frame s" for y t
    using that by (simp add: learning_frame_learning_output)
  show "error_delta (learning_output tgt y t) n = error_delta t n" if "y \<noteq> n" for y t
    using that by (rule learning_output_other)
  show "error_delta (learning_output tgt n t) n = error_delta (learning_output tgt n s) n"
    if "learning_frame t = learning_frame s" "error_delta t n = error_delta s n" for t
    using that by (rule learning_output_own)
qed

section \<open>Forward pass: frame and range of the activations\<close>

lemma fold_inv:
  assumes "P s" and "\<And>x t. P t \<Longrightarrow> P (f x t)"
  shows "P (fold f xs s)"
  using assms(1) by (induction xs arbitrary: s) (simp_all add: assms(2))

lemma output_frame_fields:
  assumes "output_frame t = output_frame s"
  shows "size_input t = size_input s" "size_output t = size_output s"
    "total_neurons t = total_neurons s" "error_delta t = error_delta s"
    "weights t = weights s" "weights_oscillating t = weights_oscillating s"
    "learning_rate t = learning_rate s" "error_amplification t = error_amplification s"
    "config_flags t = config_flags s" "sigmoid_steepness t = sigmoid_steepness s"
    "timesteps t = timesteps s" "error_total t = error_total s" "error_count t = error_count s"
proof -
  note e = assms
  from arg_cong [OF e, of size_input] show "size_input t = size_input s" by (simp add: output_frame_def)
  from arg_cong [OF e, of size_output] show "size_output t = size_output s" by (simp add: output_frame_def)
  from arg_cong [OF e, of total_neurons] show "total_neurons t = total_neurons s" by (simp add: output_frame_def)
  from arg_cong [OF e, of error_delta] show "error_delta t = error_delta s" by (simp add: output_frame_def)
  from arg_cong [OF e, of weights] show "weights t = weights s" by (simp add: output_frame_def)
  from arg_cong [OF e, of weights_oscillating] show "weights_oscillating t = weights_oscillating s" by (simp add: output_frame_def)
  from arg_cong [OF e, of learning_rate] show "learning_rate t = learning_rate s" by (simp add: output_frame_def)
  from arg_cong [OF e, of error_amplification] show "error_amplification t = error_amplification s" by (simp add: output_frame_def)
  from arg_cong [OF e, of config_flags] show "config_flags t = config_flags s" by (simp add: output_frame_def)
  from arg_cong [OF e, of sigmoid_steepness] show "sigmoid_steepness t = sigmoid_steepness s" by (simp add: output_frame_def)
  from arg_cong [OF e, of timesteps] show "timesteps t = timesteps s" by (simp add: output_frame_def)
  from arg_cong [OF e, of error_total] show "error_total t = error_total s" by (simp add: output_frame_def)
  from arg_cong [OF e, of error_count] show "error_count t = error_count s" by (simp add: output_frame_def)
qed

lemma output_frame_steps:
  "output_frame (set_neuron_input n c v s) = output_frame s"
  "output_frame (set_neuron_output n c v s) = output_frame s"
  by (simp_all add: output_frame_def set_neuron_input_def set_neuron_output_def)

lemma output_frame_bodies:
  "output_frame (activate n c s) = output_frame s"
  "output_frame (feedback n c s) = output_frame s"
  "output_frame (clear_hidden n c s) = output_frame s"
  "output_frame (distribute_input n inp c s) = output_frame s"
  by (simp_all add: activate_def feedback_def clear_hidden_def distribute_input_def
      output_frame_steps)

lemma output_frame_timestep: "output_frame (timestep n s) = output_frame s"
  by (simp add: timestep_def Let_def fold_frame [where fr = output_frame] output_frame_bodies)

lemma output_frame_output_network: "output_frame (output_network inp n s) = output_frame s"
  by (simp add: output_network_def Let_def fold_frame [where fr = output_frame]
      output_frame_bodies output_frame_timestep)

lemma output_frame_calculate_output: "output_frame (calculate_output inp s) = output_frame s"
  unfolding calculate_output_def
  by (rule fold_frame) (rule output_frame_output_network)

lemma sigmoid_open: "unit_open (sigmoid s x)"
proof -
  define y where "y = exp (- 2 * x / sigmoid_steepness s)"
  have "0 < y" by (simp add: y_def)
  then have "0 < 1 / (1 + y) \<and> 1 / (1 + y) < 1" by (simp add: field_simps)
  then show ?thesis
    unfolding unit_open_def sigmoid_def y_def .
qed

lemma neuron_output_bodies:
  "neuron_output (activate n c s) n' c' =
     (if n' = n \<and> c' = c then sigmoid s (weighted_sum n c s) else neuron_output s n' c')"
  "neuron_output (feedback n c s) = neuron_output s"
  "neuron_output (clear_hidden n c s) = neuron_output s"
  "neuron_output (distribute_input n inp c s) = neuron_output s"
  by (simp_all add: activate_def feedback_def clear_hidden_def distribute_input_def
      set_neuron_input_def set_neuron_output_def)

text \<open>A sub-network's pass stores nothing in another sub-network's activations.\<close>

lemma neuron_output_other_bodies:
  assumes "n' \<noteq> n"
  shows "neuron_output (activate n c s) n' = neuron_output s n'"
  using assms by (intro ext) (simp add: neuron_output_bodies)

lemma neuron_output_other_timestep:
  assumes "n' \<noteq> n"
  shows "neuron_output (timestep n s) n' = neuron_output s n'"
proof -
  have "neuron_output (fold (activate n) cs t) n' = neuron_output t n'" for cs t
    by (rule fold_inv [where P = "\<lambda>u. neuron_output u n' = neuron_output t n'"])
       (simp_all add: neuron_output_other_bodies [OF assms])
  moreover have "neuron_output (fold (feedback n) cs t) = neuron_output t" for cs t
    by (rule fold_frame) (rule neuron_output_bodies)
  ultimately show ?thesis by (simp add: timestep_def Let_def)
qed

lemma neuron_output_other_network:
  assumes "n' \<noteq> n"
  shows "neuron_output (output_network inp n s) n' = neuron_output s n'"
proof -
  have a: "neuron_output (fold (distribute_input n inp) cs t) = neuron_output t" for cs t
    by (rule fold_frame) (rule neuron_output_bodies)
  have b: "neuron_output (fold (clear_hidden n) cs t) = neuron_output t" for cs t
    by (rule fold_frame) (rule neuron_output_bodies)
  have c: "neuron_output (fold (\<lambda>t. timestep n) ts t) n' = neuron_output t n'" for ts t
    by (rule fold_inv [where P = "\<lambda>u. neuron_output u n' = neuron_output t n'"])
       (simp_all add: neuron_output_other_timestep [OF assms])
  show ?thesis by (simp add: output_network_def Let_def a b c)
qed

lemma fold_activate_open:
  "c \<in> set cs \<or> unit_open (neuron_output t n c) \<Longrightarrow>
   unit_open (neuron_output (fold (activate n) cs t) n c)"
proof (induction cs arbitrary: t)
  case Nil
  then show ?case by simp
next
  case (Cons c' cs)
  have "c \<in> set cs \<or> unit_open (neuron_output (activate n c' t) n c)"
    using Cons.prems by (auto simp add: neuron_output_bodies sigmoid_open)
  then show ?case using Cons.IH [of "activate n c' t"] by simp
qed

lemma neuron_output_fold_feedback: "neuron_output (fold (feedback n) cs t) = neuron_output t"
  by (rule fold_frame) (rule neuron_output_bodies)

lemma timestep_open:
  assumes "size_input t + 2 \<le> c \<and> c \<le> total_neurons t + 1 \<or> unit_open (neuron_output t n c)"
  shows "unit_open (neuron_output (timestep n t) n c)"
  using assms
  by (simp add: timestep_def Let_def neuron_output_fold_feedback fold_activate_open)

lemma fold_timestep_open:
  assumes "ts \<noteq> []" and "size_input u + 2 \<le> c" and "c \<le> total_neurons u + 1"
  shows "unit_open (neuron_output (fold (\<lambda>t. timestep n) ts u) n c)"
proof -
  from assms(1) obtain x xs where ts: "ts = x # xs" by (cases ts) auto
  have "unit_open (neuron_output (timestep n u) n c)"
    using assms(2,3) by (simp add: timestep_open)
  then have "unit_open (neuron_output (fold (\<lambda>t. timestep n) xs (timestep n u)) n c)"
    by (rule fold_inv) (simp add: timestep_open)
  then show ?thesis by (simp add: ts)
qed

lemma output_network_open:
  assumes "1 \<le> timesteps s" and "size_input s + 2 \<le> c" and "c \<le> total_neurons s + 1"
  shows "unit_open (neuron_output (output_network inp n s) n c)"
proof -
  define s1 where "s1 = fold (distribute_input n inp) [2 .. size_input s + 1] s"
  define s2 where "s2 = (if config_flags s1 6 \<noteq> 0
      then fold (clear_hidden n) [size_input s1 + 2 .. total_neurons s1 + 1] s1 else s1)"
  have f1: "output_frame s1 = output_frame s"
    unfolding s1_def by (rule fold_frame) (rule output_frame_bodies)
  have f2: "output_frame s2 = output_frame s"
    unfolding s2_def using f1
    by (simp add: fold_frame [where fr = output_frame] output_frame_bodies)
  have "[1 .. timesteps s2] \<noteq> []"
    using assms(1) by (simp add: output_frame_fields [OF f2])
  then have "unit_open (neuron_output (fold (\<lambda>t. timestep n) [1 .. timesteps s2] s2) n c)"
    using assms(2,3) by (intro fold_timestep_open) (simp_all add: output_frame_fields [OF f2])
  moreover have "output_network inp n s = fold (\<lambda>t. timestep n) [1 .. timesteps s2] s2"
    by (simp add: output_network_def Let_def s1_def s2_def)
  ultimately show ?thesis by (simp only:)
qed

lemma calculate_output_open:
  assumes "1 \<le> timesteps s" and "0 \<le> n" and "n < size_output s"
    and "size_input s + 2 \<le> c" and "c \<le> total_neurons s + 1"
  shows "unit_open (neuron_output (calculate_output inp s) n c)"
  unfolding calculate_output_def
proof (rule fold_cell [where R = "\<lambda>t. output_frame t = output_frame s"
        and obs = "\<lambda>t. neuron_output t n" and x = n and P = "\<lambda>v. unit_open (v c)"])
  show "distinct [0 .. size_output s - 1]" by simp
  show "n \<in> set [0 .. size_output s - 1]" using assms by simp
  show "output_frame s = output_frame s" by simp
  show "output_frame (output_network inp y t) = output_frame s"
    if "output_frame t = output_frame s" for y t
    using that by (simp add: output_frame_output_network)
  show "neuron_output (output_network inp y t) n = neuron_output t n" if "y \<noteq> n" for y t
    using that by (simp add: neuron_output_other_network)
  show "unit_open (neuron_output (output_network inp n t) n c)"
    if "output_frame t = output_frame s" for t
    using assms by (intro output_network_open) (simp_all add: output_frame_fields [OF that])
qed

lemma stored_open_bodies:
  assumes "stored_open s t"
  shows "stored_open s (activate n c t)" "stored_open s (feedback n c t)"
    "stored_open s (clear_hidden n c t)" "stored_open s (distribute_input n inp c t)"
  using assms by (auto simp add: stored_open_def neuron_output_bodies sigmoid_open)

lemma stored_open_timestep: "stored_open s t \<Longrightarrow> stored_open s (timestep n t)"
  by (simp add: timestep_def Let_def fold_inv stored_open_bodies)

lemma stored_open_output_network: "stored_open s t \<Longrightarrow> stored_open s (output_network inp n t)"
  by (simp add: output_network_def Let_def fold_inv stored_open_bodies stored_open_timestep)

lemma stored_open_calculate_output: "stored_open s (calculate_output inp s)"
  unfolding calculate_output_def
  by (rule fold_inv) (simp_all add: stored_open_output_network, simp add: stored_open_def)

section \<open>Topology builder: the statements of one connection\<close>

lemma conn_frame_fields:
  assumes "conn_frame t = conn_frame s"
  shows "size_input t = size_input s" "size_output t = size_output s"
    "size_hidden t = size_hidden s" "size_hidden2 t = size_hidden2 s"
    "total_neurons t = total_neurons s" "neuron_input t = neuron_input s"
    "neuron_output t = neuron_output s" "error_delta t = error_delta s"
    "weights_oscillating t = weights_oscillating s" "learning_rate t = learning_rate s"
    "bias t = bias s" "sigmoid_steepness t = sigmoid_steepness s"
    "error_amplification t = error_amplification s" "error_total t = error_total s"
    "error_count t = error_count s" "config_flags t = config_flags s"
    "init_range_weight t = init_range_weight s" "init_range_threshold t = init_range_threshold s"
    "timesteps t = timesteps s" "rand_stream t = rand_stream s"
proof -
  note e = assms
  from arg_cong [OF e, of size_input] show "size_input t = size_input s" by (simp add: conn_frame_def)
  from arg_cong [OF e, of size_output] show "size_output t = size_output s" by (simp add: conn_frame_def)
  from arg_cong [OF e, of size_hidden] show "size_hidden t = size_hidden s" by (simp add: conn_frame_def)
  from arg_cong [OF e, of size_hidden2] show "size_hidden2 t = size_hidden2 s" by (simp add: conn_frame_def)
  from arg_cong [OF e, of total_neurons] show "total_neurons t = total_neurons s" by (simp add: conn_frame_def)
  from arg_cong [OF e, of neuron_input] show "neuron_input t = neuron_input s" by (simp add: conn_frame_def)
  from arg_cong [OF e, of neuron_output] show "neuron_output t = neuron_output s" by (simp add: conn_frame_def)
  from arg_cong [OF e, of error_delta] show "error_delta t = error_delta s" by (simp add: conn_frame_def)
  from arg_cong [OF e, of weights_oscillating] show "weights_oscillating t = weights_oscillating s" by (simp add: conn_frame_def)
  from arg_cong [OF e, of learning_rate] show "learning_rate t = learning_rate s" by (simp add: conn_frame_def)
  from arg_cong [OF e, of bias] show "bias t = bias s" by (simp add: conn_frame_def)
  from arg_cong [OF e, of sigmoid_steepness] show "sigmoid_steepness t = sigmoid_steepness s" by (simp add: conn_frame_def)
  from arg_cong [OF e, of error_amplification] show "error_amplification t = error_amplification s" by (simp add: conn_frame_def)
  from arg_cong [OF e, of error_total] show "error_total t = error_total s" by (simp add: conn_frame_def)
  from arg_cong [OF e, of error_count] show "error_count t = error_count s" by (simp add: conn_frame_def)
  from arg_cong [OF e, of config_flags] show "config_flags t = config_flags s" by (simp add: conn_frame_def)
  from arg_cong [OF e, of init_range_weight] show "init_range_weight t = init_range_weight s" by (simp add: conn_frame_def)
  from arg_cong [OF e, of init_range_threshold] show "init_range_threshold t = init_range_threshold s" by (simp add: conn_frame_def)
  from arg_cong [OF e, of timesteps] show "timesteps t = timesteps s" by (simp add: conn_frame_def)
  from arg_cong [OF e, of rand_stream] show "rand_stream t = rand_stream s" by (simp add: conn_frame_def)
qed

lemma draw_frame:
  assumes "conn_frame t = conn_frame s"
  shows "draw t = draw s"
  by (intro ext) (simp add: draw_def conn_frame_fields [OF assms])

lemma draw_bounds: "0 \<le> draw s j" "draw s j < 1"
proof -
  show "0 \<le> draw s j" unfolding draw_def by (intro divide_nonneg_nonneg) simp_all
  have "rand_stream s j mod 10000 < 10000" by simp
  then have "real (rand_stream s j mod 10000) < 10000"
    by (metis of_nat_less_iff of_nat_numeral)
  then show "draw s j < 1" unfolding draw_def by simp
qed

lemma conn_frame_stores:
  "conn_frame (set_weight n c k v s) = conn_frame s"
  "conn_frame (set_random_weight n c k r s) = conn_frame s"
  by (simp_all add: conn_frame_def set_weight_def set_random_weight_def random_def)

lemmas statement_defs = init_threshold_weight_def init_regular_weight_def
  block_second_layer_input_def cut_loop_def cut_loop_from_output_def block_multilayer_input_def
  init_second_layer_weight_def self_loop_control_def inhibitory_input_control_def
  apply_neuron_types_def

lemma conn_frame_statements:
  "conn_frame (init_threshold_weight n c k s) = conn_frame s"
  "conn_frame (init_regular_weight n c k s) = conn_frame s"
  "conn_frame (block_second_layer_input n c k s) = conn_frame s"
  "conn_frame (cut_loop n c k s) = conn_frame s"
  "conn_frame (cut_loop_from_output n c k s) = conn_frame s"
  "conn_frame (block_multilayer_input n c k s) = conn_frame s"
  "conn_frame (init_second_layer_weight n c k s) = conn_frame s"
  "conn_frame (self_loop_control n c k s) = conn_frame s"
  "conn_frame (inhibitory_input_control n c k s) = conn_frame s"
  "conn_frame (apply_neuron_types n c k s) = conn_frame s"
  by (simp_all add: statement_defs conn_frame_stores)

lemma init_connection_invariant:
  assumes "P s"
    and "\<And>t. P t \<Longrightarrow> P (init_threshold_weight n c k t)"
    and "\<And>t. P t \<Longrightarrow> P (init_regular_weight n c k t)"
    and "\<And>t. P t \<Longrightarrow> P (block_second_layer_input n c k t)"
    and "\<And>t. P t \<Longrightarrow> P (cut_loop n c k t)"
    and "\<And>t. P t \<Longrightarrow> P (cut_loop_from_output n c k t)"
    and "\<And>t. P t \<Longrightarrow> P (block_multilayer_input n c k t)"
    and "\<And>t. P t \<Longrightarrow> P (init_second_layer_weight n c k t)"
    and "\<And>t. P t \<Longrightarrow> P (self_loop_control n c k t)"
    and "\<And>t. P t \<Longrightarrow> P (inhibitory_input_control n c k t)"
    and "\<And>t. P t \<Longrightarrow> P (apply_neuron_types n c k t)"
  shows "P (init_connection n c k s)"
  unfolding init_connection_def fold_simps
  by (intro assms)

lemma conn_frame_init_connection: "conn_frame (init_connection n c k s) = conn_frame s"
  by (rule init_connection_invariant) (simp_all only: conn_frame_statements)

lemma weights_set_random_weight:
  "weights (set_random_weight n c k r s) n' c' k' =
     (if n' = n \<and> c' = c \<and> k' = k then r * draw s (rand_calls s) else weights s n' c' k')"
  by (simp add: set_random_weight_def random_def set_weight_def draw_def)

lemma statements_other:
  assumes "(n', c', k') \<noteq> (n, c, k)"
  shows
  "weights (init_threshold_weight n c k s) n' c' k' = weights s n' c' k'"
  "weights (init_regular_weight n c k s) n' c' k' = weights s n' c' k'"
  "weights (block_second_layer_input n c k s) n' c' k' = weights s n' c' k'"
  "weights (cut_loop n c k s) n' c' k' = weights s n' c' k'"
  "weights (cut_loop_from_output n c k s) n' c' k' = weights s n' c' k'"
  "weights (block_multilayer_input n c k s) n' c' k' = weights s n' c' k'"
  "weights (init_second_layer_weight n c k s) n' c' k' = weights s n' c' k'"
  "weights (self_loop_control n c k s) n' c' k' = weights s n' c' k'"
  "weights (inhibitory_input_control n c k s) n' c' k' = weights s n' c' k'"
  "weights (apply_neuron_types n c k s) n' c' k' = weights s n' c' k'"
  using assms
  by (auto simp add: statement_defs weights_set_weight weights_set_random_weight)

lemma init_connection_other:
  assumes "(n', c', k') \<noteq> (n, c, k)"
  shows "weights (init_connection n c k s) n' c' k' = weights s n' c' k'"
  by (rule init_connection_invariant) (simp_all only: statements_other [OF assms])

lemma init_connection_unfold:
  "init_connection n c k s =
     apply_neuron_types n c k (inhibitory_input_control n c k (self_loop_control n c k
       (init_second_layer_weight n c k (block_multilayer_input n c k
         (cut_loop_from_output n c k (cut_loop n c k (block_second_layer_input n c k
           (init_regular_weight n c k (init_threshold_weight n c k s)))))))))"
  by (simp add: init_connection_def)

lemma weights_statements:
  "weights (init_threshold_weight n c k s) n c k =
     (if k < 2 then init_range_threshold s * draw s (rand_calls s) else weights s n c k)"
  "weights (init_regular_weight n c k s) n c k =
     (if k > 1 then init_range_weight s * draw s (rand_calls s) else weights s n c k)"
  "weights (block_second_layer_input n c k s) n c k =
     (if c > total_neurons s + 1 - size_hidden2 s \<and> k < size_input s + 2 \<and> k \<ge> 2
      then 0 else weights s n c k)"
  "weights (cut_loop n c k s) n c k =
     (if config_flags s 6 = 1 \<and> c \<noteq> k \<and> c > size_input s + 2 \<and> k > size_input s + 1
      then 0 else weights s n c k)"
  "weights (cut_loop_from_output n c k s) n c k =
     (if config_flags s 6 = 1 \<and> c > size_input s + 1 \<and> k > size_input s + 1
         \<and> k < size_input s + 3
      then 0 else weights s n c k)"
  "weights (block_multilayer_input n c k s) n c k =
     (if config_flags s 7 = 1 \<and> k \<ge> 2 \<and> k < size_input s + 2
         \<and> c \<ge> size_input s + 2 \<and> c < size_input s + 3
      then 0 else weights s n c k)"
  "weights (init_second_layer_weight n c k s) n c k =
     (if c > total_neurons s + 1 - size_hidden2 s \<and> k \<ge> size_input s + 3
      then init_range_weight s * draw s (rand_calls s) else weights s n c k)"
  "weights (self_loop_control n c k s) n c k =
     (if c = k then (if config_flags s 3 = 1 then 0 else init_range_weight s * draw s (rand_calls s))
      else weights s n c k)"
  "weights (inhibitory_input_control n c k s) n c k =
     (if config_flags s 11 = 0 \<and> k < size_input s + 2 \<and> k smod 2 = 1
      then 0 else weights s n c k)"
  "weights (apply_neuron_types n c k s) n c k =
     weights s n c k * (weights_oscillating s k * weights_oscillating s c)"
  by (simp_all add: statement_defs weights_set_weight weights_set_random_weight)

lemma cell_is_fields:
  assumes "cell_is s n c k P t"
  shows "conn_frame t = conn_frame s" "P (weights t n c k)"
  using assms by (simp_all add: cell_is_def)

lemma nonneg_first:
  assumes "0 \<le> init_range_weight s" and "0 \<le> init_range_threshold s"
  shows "cell_is s n c k (\<lambda>w. 0 \<le> w) (init_regular_weight n c k (init_threshold_weight n c k s))"
proof -
  let ?t = "init_threshold_weight n c k s"
  have f: "conn_frame ?t = conn_frame s" by (rule conn_frame_statements)
  have "0 \<le> weights (init_regular_weight n c k ?t) n c k"
  proof (cases "k < 2")
    case True
    then show ?thesis
      using assms by (simp add: weights_statements draw_bounds)
  next
    case False
    then show ?thesis
      using assms by (simp add: weights_statements conn_frame_fields [OF f] draw_bounds)
  qed
  then show ?thesis by (simp add: cell_is_def conn_frame_statements)
qed

lemma nonneg_later:
  assumes "0 \<le> init_range_weight s" and "cell_is s n c k (\<lambda>w. 0 \<le> w) t"
  shows "cell_is s n c k (\<lambda>w. 0 \<le> w) (block_second_layer_input n c k t)"
    "cell_is s n c k (\<lambda>w. 0 \<le> w) (cut_loop n c k t)"
    "cell_is s n c k (\<lambda>w. 0 \<le> w) (cut_loop_from_output n c k t)"
    "cell_is s n c k (\<lambda>w. 0 \<le> w) (block_multilayer_input n c k t)"
    "cell_is s n c k (\<lambda>w. 0 \<le> w) (init_second_layer_weight n c k t)"
    "cell_is s n c k (\<lambda>w. 0 \<le> w) (self_loop_control n c k t)"
    "cell_is s n c k (\<lambda>w. 0 \<le> w) (inhibitory_input_control n c k t)"
proof -
  note f = cell_is_fields(1) [OF assms(2)]
  have r: "0 \<le> init_range_weight t" using assms(1) by (simp add: conn_frame_fields [OF f])
  have w: "0 \<le> weights t n c k" using cell_is_fields(2) [OF assms(2)] .
  show "cell_is s n c k (\<lambda>w. 0 \<le> w) (block_second_layer_input n c k t)"
    "cell_is s n c k (\<lambda>w. 0 \<le> w) (cut_loop n c k t)"
    "cell_is s n c k (\<lambda>w. 0 \<le> w) (cut_loop_from_output n c k t)"
    "cell_is s n c k (\<lambda>w. 0 \<le> w) (block_multilayer_input n c k t)"
    "cell_is s n c k (\<lambda>w. 0 \<le> w) (init_second_layer_weight n c k t)"
    "cell_is s n c k (\<lambda>w. 0 \<le> w) (self_loop_control n c k t)"
    "cell_is s n c k (\<lambda>w. 0 \<le> w) (inhibitory_input_control n c k t)"
    using r w f by (simp_all add: cell_is_def conn_frame_statements weights_statements draw_bounds)
qed

lemma init_connection_sign:
  assumes "0 \<le> init_range_weight s" and "0 \<le> init_range_threshold s"
  shows "\<exists>m\<ge>0. weights (init_connection n c k s) n c k
          = m * (weights_oscillating s k * weights_oscillating s c)"
proof -
  let ?t = "inhibitory_input_control n c k (self_loop_control n c k
       (init_second_layer_weight n c k (block_multilayer_input n c k
         (cut_loop_from_output n c k (cut_loop n c k (block_second_layer_input n c k
           (init_regular_weight n c k (init_threshold_weight n c k s))))))))"
  have "cell_is s n c k (\<lambda>w. 0 \<le> w) ?t"
    by (intro nonneg_later nonneg_first assms)
  then have f: "conn_frame ?t = conn_frame s" and w: "0 \<le> weights ?t n c k"
    by (simp_all only: cell_is_def)
  have "weights (init_connection n c k s) n c k
      = weights ?t n c k * (weights_oscillating s k * weights_oscillating s c)"
    unfolding init_connection_unfold
    by (simp only: weights_statements conn_frame_fields [OF f])
  with w show ?thesis by blast
qed

lemma init_connection_cut:
  assumes "config_flags s 6 = 1" and "c \<noteq> k"
    and "size_input s + 2 < c" and "size_input s + 1 < k"
    and "\<not> (total_neurons s + 1 - size_hidden2 s < c \<and> size_input s + 3 \<le> k)"
  shows "weights (init_connection n c k s) n c k = 0"
proof -
  let ?t3 = "block_second_layer_input n c k (init_regular_weight n c k (init_threshold_weight n c k s))"
  let ?t4 = "cut_loop n c k ?t3"
  let ?t5 = "cut_loop_from_output n c k ?t4"
  let ?t6 = "block_multilayer_input n c k ?t5"
  let ?t7 = "init_second_layer_weight n c k ?t6"
  let ?t8 = "self_loop_control n c k ?t7"
  let ?t9 = "inhibitory_input_control n c k ?t8"
  have f3: "conn_frame ?t3 = conn_frame s" by (simp only: conn_frame_statements)
  have f4: "conn_frame ?t4 = conn_frame s" by (simp only: conn_frame_statements)
  have f5: "conn_frame ?t5 = conn_frame s" by (simp only: conn_frame_statements)
  have f6: "conn_frame ?t6 = conn_frame s" by (simp only: conn_frame_statements)
  have f7: "conn_frame ?t7 = conn_frame s" by (simp only: conn_frame_statements)
  have f8: "conn_frame ?t8 = conn_frame s" by (simp only: conn_frame_statements)
  have f9: "conn_frame ?t9 = conn_frame s" by (simp only: conn_frame_statements)
  have "weights ?t4 n c k = 0"
    using assms by (simp add: weights_statements(4) conn_frame_fields [OF f3])
  then have "weights ?t5 n c k = 0"
    by (simp add: weights_statements(5))
  then have "weights ?t6 n c k = 0"
    by (simp add: weights_statements(6))
  then have "weights ?t7 n c k = 0"
    using assms by (auto simp add: weights_statements(7) conn_frame_fields [OF f6])
  then have "weights ?t8 n c k = 0"
    using assms by (simp add: weights_statements(8))
  then have "weights ?t9 n c k = 0"
    by (simp add: weights_statements(9))
  then show ?thesis
    unfolding init_connection_unfold by (simp add: weights_statements(10))
qed

lemma init_connection_second_layer:
  assumes "total_neurons s + 1 - size_hidden2 s < c" and "size_input s + 3 \<le> k" and "c \<noteq> k"
  shows "\<exists>j. weights (init_connection n c k s) n c k
          = init_range_weight s * draw s j * (weights_oscillating s k * weights_oscillating s c)"
proof -
  let ?t6 = "block_multilayer_input n c k (cut_loop_from_output n c k (cut_loop n c k
    (block_second_layer_input n c k (init_regular_weight n c k (init_threshold_weight n c k s)))))"
  let ?t7 = "init_second_layer_weight n c k ?t6"
  let ?t8 = "self_loop_control n c k ?t7"
  let ?t9 = "inhibitory_input_control n c k ?t8"
  have f6: "conn_frame ?t6 = conn_frame s" by (simp only: conn_frame_statements)
  have f7: "conn_frame ?t7 = conn_frame s" by (simp only: conn_frame_statements)
  have f8: "conn_frame ?t8 = conn_frame s" by (simp only: conn_frame_statements)
  have f9: "conn_frame ?t9 = conn_frame s" by (simp only: conn_frame_statements)
  have "weights ?t7 n c k = init_range_weight s * draw s (rand_calls ?t6)"
    using assms by (simp add: weights_statements(7) conn_frame_fields [OF f6] draw_frame [OF f6])
  then have "weights ?t8 n c k = init_range_weight s * draw s (rand_calls ?t6)"
    using assms by (simp add: weights_statements(8))
  then have "weights ?t9 n c k = init_range_weight s * draw s (rand_calls ?t6)"
    using assms by (simp add: weights_statements(9) conn_frame_fields [OF f8])
  then have "weights (init_connection n c k s) n c k
      = init_range_weight s * draw s (rand_calls ?t6)
        * (weights_oscillating s k * weights_oscillating s c)"
    unfolding init_connection_unfold
    by (simp add: weights_statements(10) conn_frame_fields [OF f9])
  then show ?thesis by blast
qed

text \<open>A connection into the output neuron from a hidden neuron is an ordinary one.\<close>

lemma init_connection_output_from_hidden:
  assumes "c \<le> size_input s + 2" and "size_input s + 3 \<le> k" and "1 < k"
    and "c \<le> total_neurons s + 1 - size_hidden2 s"
  shows "\<exists>j. weights (init_connection n c k s) n c k
          = init_range_weight s * draw s j * (weights_oscillating s k * weights_oscillating s c)"
proof -
  let ?t1 = "init_threshold_weight n c k s"
  let ?t2 = "init_regular_weight n c k ?t1"
  let ?t3 = "block_second_layer_input n c k ?t2"
  let ?t4 = "cut_loop n c k ?t3"
  let ?t5 = "cut_loop_from_output n c k ?t4"
  let ?t6 = "block_multilayer_input n c k ?t5"
  let ?t7 = "init_second_layer_weight n c k ?t6"
  let ?t8 = "self_loop_control n c k ?t7"
  let ?t9 = "inhibitory_input_control n c k ?t8"
  have f1: "conn_frame ?t1 = conn_frame s" by (simp only: conn_frame_statements)
  have f2: "conn_frame ?t2 = conn_frame s" by (simp only: conn_frame_statements)
  have f3: "conn_frame ?t3 = conn_frame s" by (simp only: conn_frame_statements)
  have f4: "conn_frame ?t4 = conn_frame s" by (simp only: conn_frame_statements)
  have f5: "conn_frame ?t5 = conn_frame s" by (simp only: conn_frame_statements)
  have f6: "conn_frame ?t6 = conn_frame s" by (simp only: conn_frame_statements)
  have f7: "conn_frame ?t7 = conn_frame s" by (simp only: conn_frame_statements)
  have f8: "conn_frame ?t8 = conn_frame s" by (simp only: conn_frame_statements)
  have f9: "conn_frame ?t9 = conn_frame s" by (simp only: conn_frame_statements)
  let ?v = "init_range_weight s * draw s (rand_calls ?t1)"
  have "weights ?t2 n c k = ?v"
    using assms by (simp add: weights_statements(2) conn_frame_fields [OF f1] draw_frame [OF f1])
  then have "weights ?t3 n c k = ?v"
    using assms by (simp add: weights_statements(3) conn_frame_fields [OF f2])
  then have "weights ?t4 n c k = ?v"
    using assms by (simp add: weights_statements(4) conn_frame_fields [OF f3])
  then have "weights ?t5 n c k = ?v"
    using assms by (simp add: weights_statements(5) conn_frame_fields [OF f4])
  then have "weights ?t6 n c k = ?v"
    using assms by (simp add: weights_statements(6) conn_frame_fields [OF f5])
  then have "weights ?t7 n c k = ?v"
    using assms by (simp add: weights_statements(7) conn_frame_fields [OF f6])
  then have "weights ?t8 n c k = ?v"
    using assms by (simp add: weights_statements(8))
  then have "weights ?t9 n c k = ?v"
    using assms by (simp add: weights_statements(9) conn_frame_fields [OF f8])
  then have "weights (init_connection n c k s) n c k
      = ?v * (weights_oscillating s k * weights_oscillating s c)"
    unfolding init_connection_unfold
    by (simp add: weights_statements(10) conn_frame_fields [OF f9])
  then show ?thesis by blast
qed

section \<open>Topology builder: the loops\<close>

lemma init_frame_fields:
  assumes "init_frame t = init_frame s"
  shows "size_input t = size_input s" "size_output t = size_output s"
    "size_hidden t = size_hidden s" "size_hidden2 t = size_hidden2 s"
    "total_neurons t = total_neurons s"
    "neuron_output t = neuron_output s" "error_delta t = error_delta s"
    "learning_rate t = learning_rate s"
    "bias t = bias s" "sigmoid_steepness t = sigmoid_steepness s"
    "error_amplification t = error_amplification s" "error_total t = error_total s"
    "error_count t = error_count s" "config_flags t = config_flags s"
    "init_range_weight t = init_range_weight s" "init_range_threshold t = init_range_threshold s"
    "timesteps t = timesteps s" "rand_stream t = rand_stream s"
proof -
  note e = assms
  from arg_cong [OF e, of size_input] show "size_input t = size_input s" by (simp add: init_frame_def)
  from arg_cong [OF e, of size_output] show "size_output t = size_output s" by (simp add: init_frame_def)
  from arg_cong [OF e, of size_hidden] show "size_hidden t = size_hidden s" by (simp add: init_frame_def)
  from arg_cong [OF e, of size_hidden2] show "size_hidden2 t = size_hidden2 s" by (simp add: init_frame_def)
  from arg_cong [OF e, of total_neurons] show "total_neurons t = total_neurons s" by (simp add: init_frame_def)
  from arg_cong [OF e, of neuron_output] show "neuron_output t = neuron_output s" by (simp add: init_frame_def)
  from arg_cong [OF e, of error_delta] show "error_delta t = error_delta s" by (simp add: init_frame_def)
  from arg_cong [OF e, of learning_rate] show "learning_rate t = learning_rate s" by (simp add: init_frame_def)
  from arg_cong [OF e, of bias] show "bias t = bias s" by (simp add: init_frame_def)
  from arg_cong [OF e, of sigmoid_steepness] show "sigmoid_steepness t = sigmoid_steepness s" by (simp add: init_frame_def)
  from arg_cong [OF e, of error_amplification] show "error_amplification t = error_amplification s" by (simp add: init_frame_def)
  from arg_cong [OF e, of error_total] show "error_total t = error_total s" by (simp add: init_frame_def)
  from arg_cong [OF e, of error_count] show "error_count t = error_count s" by (simp add: init_frame_def)
  from arg_cong [OF e, of config_flags] show "config_flags t = config_flags s" by (simp add: init_frame_def)
  from arg_cong [OF e, of init_range_weight] show "init_range_weight t = init_range_weight s" by (simp add: init_frame_def)
  from arg_cong [OF e, of init_range_threshold] show "init_range_threshold t = init_range_threshold s" by (simp add: init_frame_def)
  from arg_cong [OF e, of timesteps] show "timesteps t = timesteps s" by (simp add: init_frame_def)
  from arg_cong [OF e, of rand_stream] show "rand_stream t = rand_stream s" by (simp add: init_frame_def)
qed

lemma init_frame_conn_frame: "init_frame (conn_frame s) = init_frame s"
  by (simp add: init_frame_def conn_frame_def)

lemma conn_frame_init_frame:
  assumes "conn_frame t = conn_frame s"
  shows "init_frame t = init_frame s"
  using arg_cong [OF assms, of init_frame] by (simp only: init_frame_conn_frame)

lemma fold_init_oscillating:
  "fold init_oscillating cs s =
     s\<lparr>weights_oscillating :=
        (\<lambda>i. if i \<in> set cs then of_int (((i + 1) smod 2) * 2 - 1) else weights_oscillating s i)\<rparr>"
proof (induction cs arbitrary: s)
  case Nil
  show ?case by simp
next
  case (Cons c cs)
  define p :: "int \<Rightarrow> real" where "p = (\<lambda>i. of_int (((i + 1) smod 2) * 2 - 1))"
  have step: "init_oscillating c s = s\<lparr>weights_oscillating := (weights_oscillating s)(c := p c)\<rparr>"
    by (simp add: init_oscillating_def set_oscillating_def p_def)
  have "fold init_oscillating (c # cs) s = fold init_oscillating cs (init_oscillating c s)"
    by simp
  also have "\<dots> = (init_oscillating c s)\<lparr>weights_oscillating :=
        (\<lambda>i. if i \<in> set cs then p i else weights_oscillating (init_oscillating c s) i)\<rparr>"
    unfolding p_def by (rule Cons.IH)
  also have "\<dots> = s\<lparr>weights_oscillating :=
        (\<lambda>i. if i \<in> set (c # cs) then p i else weights_oscillating s i)\<rparr>"
  proof -
    have a: "(init_oscillating c s)\<lparr>weights_oscillating := G\<rparr> = s\<lparr>weights_oscillating := G\<rparr>"
      for G by (simp add: step)
    have b: "(\<lambda>i. if i \<in> set cs then p i else weights_oscillating (init_oscillating c s) i)
        = (\<lambda>i. if i \<in> set (c # cs) then p i else weights_oscillating s i)"
      by (auto simp add: fun_eq_iff step)
    show ?thesis by (simp only: a b)
  qed
  finally show ?case unfolding p_def .
qed

lemma polarity_phase:
  "set_oscillating (size_input s + 2) 1 (fold init_oscillating [0 .. total_neurons s + 1] s)
   = s\<lparr>weights_oscillating := polarity (size_input s) (total_neurons s) (weights_oscillating s)\<rparr>"
proof -
  define p :: "int \<Rightarrow> real" where "p = (\<lambda>i. of_int (((i + 1) smod 2) * 2 - 1))"
  have "(\<lambda>i. if i \<in> set [0 .. total_neurons s + 1] then p i
             else weights_oscillating s i)(size_input s + 2 := 1)
      = polarity (size_input s) (total_neurons s) (weights_oscillating s)"
    unfolding p_def by (auto simp add: fun_eq_iff polarity_def)
  then show ?thesis
    unfolding fold_init_oscillating p_def by (simp add: set_oscillating_def)
qed

lemma polarity_idem: "polarity a b (polarity a b f) = polarity a b f"
  by (auto simp add: fun_eq_iff polarity_def)

lemma polarity_values: "polarity a b (\<lambda>_. 0) i \<in> {- 1, 0, 1}"
proof -
  have "(i + 1) smod 2 = 0 \<or> (i + 1) smod 2 = 1" if "0 \<le> i"
  proof -
    have "(i + 1) smod 2 = (i + 1) mod 2"
      using that by (simp add: signed_modulo_int_def sgn_if)
    then show ?thesis by presburger
  qed
  then show ?thesis by (auto simp add: polarity_def)
qed

lemma init_pair_pair: "init_pair n (c, k) = init_connection n c k"
  by (rule ext) (simp add: init_pair_def)

lemma conn_frame_init_pair: "conn_frame (init_pair n p s) = conn_frame s"
  by (cases p) (simp add: init_pair_def conn_frame_init_connection)

lemma init_connections_flat: "init_connections n s = fold (init_pair n) (pairs s) s"
proof -
  let ?ks = "[0 .. total_neurons s + 1]"
  let ?P = "\<lambda>t. conn_frame t = conn_frame s"
  have inv: "?P (fold (init_connection n c) ks t)" if "?P t" for c ks t
    using that by (simp add: fold_frame [where fr = conn_frame] conn_frame_init_connection)
  have step: "fold (init_connection n c) [0 .. total_neurons t + 1] t
      = fold (init_connection n c) ?ks t" if "?P t" for c t
    by (simp add: conn_frame_fields [OF that])
  have "fold (\<lambda>c t. fold (init_connection n c) [0 .. total_neurons t + 1] t) cs s
      = fold (\<lambda>c. fold (init_connection n c) ?ks) cs s
      \<and> ?P (fold (\<lambda>c t. fold (init_connection n c) [0 .. total_neurons t + 1] t) cs s)" for cs
    by (rule fold_agree [where P = ?P]) (simp, erule inv, erule step)
  moreover have "fold (init_pair n) (concat (map (\<lambda>c. map (Pair c) ks) cs))
      = fold (\<lambda>c. fold (init_connection n c) ks) cs" for cs ks
    by (simp add: fold_concat_map fold_map comp_def init_pair_pair)
  ultimately show ?thesis
    by (simp add: init_connections_def pairs_def)
qed

lemma conn_frame_init_connections: "conn_frame (init_connections n s) = conn_frame s"
  unfolding init_connections_flat
  by (rule fold_frame) (rule conn_frame_init_pair)

lemma distinct_pairs: "distinct (pairs s)"
  unfolding pairs_def by (rule distinct_tagged) simp_all

lemma set_pairs:
  "(c, k) \<in> set (pairs s) \<longleftrightarrow>
     size_input s + 2 \<le> c \<and> c \<le> total_neurons s + 1 \<and> 0 \<le> k \<and> k \<le> total_neurons s + 1"
  by (auto simp add: pairs_def image_iff)

lemma init_pair_other:
  assumes "n' \<noteq> n \<or> p \<noteq> (c, k)"
  shows "weights (init_pair n p t) n' c k = weights t n' c k"
  using assms by (cases p) (auto simp add: init_pair_def init_connection_other)

lemma init_connections_cell:
  assumes "(c, k) \<in> set (pairs s)"
    and "\<And>t. conn_frame t = conn_frame s \<Longrightarrow> Q (weights (init_connection n c k t) n c k)"
  shows "Q (weights (init_connections n s) n c k)"
  unfolding init_connections_flat
proof (rule fold_cell [where R = "\<lambda>t. conn_frame t = conn_frame s"
        and obs = "\<lambda>t. weights t n c k" and x = "(c, k)"])
  show "distinct (pairs s)" by (rule distinct_pairs)
  show "(c, k) \<in> set (pairs s)" by (rule assms(1))
  show "conn_frame s = conn_frame s" by simp
  show "conn_frame (init_pair n y t) = conn_frame s" if "conn_frame t = conn_frame s" for y t
    using that by (simp add: conn_frame_init_pair)
  show "weights (init_pair n y t) n c k = weights t n c k" if "y \<noteq> (c, k)" for y t
    using that by (simp add: init_pair_other)
  show "Q (weights (init_pair n (c, k) t) n c k)" if "conn_frame t = conn_frame s" for t
    using assms(2) [OF that] by (simp add: init_pair_pair)
qed

lemma init_connections_other:
  assumes "n' \<noteq> n \<or> (c, k) \<notin> set (pairs s)"
  shows "weights (init_connections n s) n' c k = weights s n' c k"
proof (cases "n' = n")
  case False
  have "weights (fold (init_pair n) ps s) n' c k = weights s n' c k" for ps
    by (rule fold_inv [where P = "\<lambda>t. weights t n' c k = weights s n' c k"])
       (simp_all add: init_pair_other False)
  then show ?thesis by (simp add: init_connections_flat)
next
  case True
  with assms have "(c, k) \<notin> set (pairs s)" by simp
  then have "weights (fold (init_pair n) (pairs s) s) n' c k = weights s n' c k"
    by (rule fold_untouched [where obs = "\<lambda>t. weights t n' c k"])
       (simp add: init_pair_other)
  then show ?thesis by (simp add: init_connections_flat)
qed

lemma init_out_network_unfold:
  "init_out_network n s =
     set_neuron_input n 1 (bias s) (set_neuron_input n 0 (bias s)
       (init_connections n
         (s\<lparr>weights_oscillating :=
              polarity (size_input s) (total_neurons s) (weights_oscillating s)\<rparr>)))"
proof -
  let ?s2 = "s\<lparr>weights_oscillating :=
              polarity (size_input s) (total_neurons s) (weights_oscillating s)\<rparr>"
  have a: "set_oscillating (size_input (fold init_oscillating [0 .. total_neurons s + 1] s) + 2) 1
      (fold init_oscillating [0 .. total_neurons s + 1] s) = ?s2"
    using polarity_phase [of s] by (simp add: fold_init_oscillating)
  have b: "bias (init_connections n ?s2) = bias s"
    using conn_frame_fields(11) [OF conn_frame_init_connections [of n ?s2]] by simp
  have c: "bias (set_neuron_input n i v t) = bias t" for i v t
    by (simp add: set_neuron_input_def)
  have d: "fold (\<lambda>c t. fold (init_connection n c) [0 .. total_neurons t + 1] t)
      [size_input s + 2 .. total_neurons s + 1] ?s2 = init_connections n ?s2"
    by (simp add: init_connections_def)
  show ?thesis
    unfolding init_out_network_def Let_def a
    by (simp add: d b c)
qed

lemma init_network_unfold:
  "init_network ii io ih ih2 s =
     (fold init_out_network [0 .. io - 1] (set_dimensions ii io ih ih2 s))
       \<lparr>error_count := 0, error_total := 0\<rparr>"
  by (simp add: init_network_def Let_def set_dimensions_def)

lemma init_frame_set_neuron_input: "init_frame (set_neuron_input n i v s) = init_frame s"
  by (simp add: init_frame_def set_neuron_input_def)

lemma init_frame_polarity: "init_frame (s\<lparr>weights_oscillating := f\<rparr>) = init_frame s"
  by (simp add: init_frame_def)

lemma init_frame_init_out_network: "init_frame (init_out_network n s) = init_frame s"
  unfolding init_out_network_unfold init_frame_set_neuron_input
  using conn_frame_init_frame [OF conn_frame_init_connections]
  by (simp add: init_frame_polarity)

lemma weights_oscillating_init_out_network:
  "weights_oscillating (init_out_network n s)
   = polarity (size_input s) (total_neurons s) (weights_oscillating s)"
proof -
  let ?s2 = "s\<lparr>weights_oscillating :=
              polarity (size_input s) (total_neurons s) (weights_oscillating s)\<rparr>"
  have "weights_oscillating (init_connections n ?s2) = weights_oscillating ?s2"
    by (rule conn_frame_fields [OF conn_frame_init_connections])
  then show ?thesis
    by (simp add: init_out_network_unfold set_neuron_input_def)
qed

lemma weights_set_neuron_input: "weights (set_neuron_input n i v s) = weights s"
  by (simp add: set_neuron_input_def)

lemma pairs_polarity: "pairs (s\<lparr>weights_oscillating := f\<rparr>) = pairs s"
  by (simp add: pairs_def)

lemma init_out_network_cell:
  assumes "(c, k) \<in> set (pairs s)"
    and "\<And>u. init_frame u = init_frame s \<Longrightarrow>
           weights_oscillating u = polarity (size_input s) (total_neurons s) (weights_oscillating s)
           \<Longrightarrow> Q (weights (init_connection n c k u) n c k)"
  shows "Q (weights (init_out_network n s) n c k)"
proof -
  let ?s2 = "s\<lparr>weights_oscillating :=
              polarity (size_input s) (total_neurons s) (weights_oscillating s)\<rparr>"
  have "Q (weights (init_connections n ?s2) n c k)"
  proof (rule init_connections_cell)
    show "(c, k) \<in> set (pairs ?s2)" using assms(1) by (simp add: pairs_polarity)
    fix t assume f: "conn_frame t = conn_frame ?s2"
    have "init_frame t = init_frame s"
      using conn_frame_init_frame [OF f] by (simp add: init_frame_polarity)
    moreover have "weights_oscillating t
        = polarity (size_input s) (total_neurons s) (weights_oscillating s)"
      using conn_frame_fields(9) [OF f] by simp
    ultimately show "Q (weights (init_connection n c k t) n c k)" by (rule assms(2))
  qed
  then show ?thesis
    by (simp add: init_out_network_unfold weights_set_neuron_input)
qed

lemma init_out_network_other:
  assumes "n' \<noteq> n \<or> (c, k) \<notin> set (pairs s)"
  shows "weights (init_out_network n s) n' c k = weights s n' c k"
  using assms
  by (simp add: init_out_network_unfold weights_set_neuron_input init_connections_other
      pairs_polarity)

lemma neuron_input_init_out_network:
  "neuron_input (init_out_network n s) n' i =
     (if n' = n \<and> (i = 0 \<or> i = 1) then bias s else neuron_input s n' i)"
proof -
  let ?s2 = "s\<lparr>weights_oscillating :=
              polarity (size_input s) (total_neurons s) (weights_oscillating s)\<rparr>"
  have "neuron_input (init_connections n ?s2) = neuron_input ?s2"
    by (rule conn_frame_fields [OF conn_frame_init_connections])
  then show ?thesis
    by (simp add: init_out_network_unfold set_neuron_input_def)
qed

lemma set_dimensions_fields:
  "size_input (set_dimensions ii io ih ih2 s) = ii"
  "size_output (set_dimensions ii io ih ih2 s) = io"
  "size_hidden (set_dimensions ii io ih ih2 s) = ih + ih2"
  "size_hidden2 (set_dimensions ii io ih ih2 s) = ih2"
  "total_neurons (set_dimensions ii io ih ih2 s) = ii + 1 + (ih + ih2)"
  "weights (set_dimensions ii io ih ih2 s) = weights s"
  "weights_oscillating (set_dimensions ii io ih ih2 s) = weights_oscillating s"
  "neuron_input (set_dimensions ii io ih ih2 s) = neuron_input s"
  "neuron_output (set_dimensions ii io ih ih2 s) = neuron_output s"
  "error_delta (set_dimensions ii io ih ih2 s) = error_delta s"
  "config_flags (set_dimensions ii io ih ih2 s) = config_flags s"
  "init_range_weight (set_dimensions ii io ih ih2 s) = init_range_weight s"
  "init_range_threshold (set_dimensions ii io ih ih2 s) = init_range_threshold s"
  "bias (set_dimensions ii io ih ih2 s) = bias s"
  "learning_rate (set_dimensions ii io ih ih2 s) = learning_rate s"
  "error_amplification (set_dimensions ii io ih ih2 s) = error_amplification s"
  "sigmoid_steepness (set_dimensions ii io ih ih2 s) = sigmoid_steepness s"
  "timesteps (set_dimensions ii io ih ih2 s) = timesteps s"
  "rand_stream (set_dimensions ii io ih ih2 s) = rand_stream s"
  by (simp_all add: set_dimensions_def)

lemma building_start: "building ii io ih ih2 s (set_dimensions ii io ih ih2 s)"
  by (simp add: building_def set_dimensions_fields)

lemma building_dims:
  assumes "building ii io ih ih2 s t"
  shows "size_input t = ii" "total_neurons t = ii + 1 + (ih + ih2)" "size_hidden2 t = ih2"
    "size_output t = io" "config_flags t = config_flags s"
    "init_range_weight t = init_range_weight s" "init_range_threshold t = init_range_threshold s"
    "bias t = bias s" "rand_stream t = rand_stream s"
proof -
  from assms have f: "init_frame t = init_frame (set_dimensions ii io ih ih2 s)"
    by (simp add: building_def)
  show "size_input t = ii" "total_neurons t = ii + 1 + (ih + ih2)" "size_hidden2 t = ih2"
    "size_output t = io" "config_flags t = config_flags s"
    "init_range_weight t = init_range_weight s" "init_range_threshold t = init_range_threshold s"
    "bias t = bias s" "rand_stream t = rand_stream s"
    by (simp_all add: init_frame_fields [OF f] set_dimensions_fields)
qed

lemma building_step:
  assumes "building ii io ih ih2 s t"
  shows "building ii io ih ih2 s (init_out_network n t)"
    and "weights_oscillating (init_out_network n t)
           = polarity ii (ii + 1 + (ih + ih2)) (weights_oscillating s)"
proof -
  from assms have o: "weights_oscillating t = weights_oscillating s
      \<or> weights_oscillating t = polarity ii (ii + 1 + (ih + ih2)) (weights_oscillating s)"
    by (simp add: building_def)
  then show p: "weights_oscillating (init_out_network n t)
      = polarity ii (ii + 1 + (ih + ih2)) (weights_oscillating s)"
    by (auto simp add: weights_oscillating_init_out_network building_dims [OF assms] polarity_idem)
  from assms have "init_frame (init_out_network n t) = init_frame (set_dimensions ii io ih ih2 s)"
    by (simp add: building_def init_frame_init_out_network)
  with p show "building ii io ih ih2 s (init_out_network n t)"
    by (simp add: building_def)
qed

lemma building_fold:
  "building ii io ih ih2 s (fold init_out_network ns (set_dimensions ii io ih ih2 s))"
  by (rule fold_inv) (simp_all add: building_start building_step)

lemma building_pairs:
  assumes "building ii io ih ih2 s t"
  shows "(c, k) \<in> set (pairs t) \<longleftrightarrow>
     ii + 2 \<le> c \<and> c \<le> ii + 1 + (ih + ih2) + 1 \<and> 0 \<le> k \<and> k \<le> ii + 1 + (ih + ih2) + 1"
  by (simp add: set_pairs building_dims [OF assms])

lemma init_network_fields:
  "size_input (init_network ii io ih ih2 s) = ii"
  "size_output (init_network ii io ih ih2 s) = io"
  "size_hidden (init_network ii io ih ih2 s) = ih + ih2"
  "size_hidden2 (init_network ii io ih ih2 s) = ih2"
  "total_neurons (init_network ii io ih ih2 s) = ii + 1 + (ih + ih2)"
  "error_count (init_network ii io ih ih2 s) = 0"
  "error_total (init_network ii io ih ih2 s) = 0"
  "neuron_output (init_network ii io ih ih2 s) = neuron_output s"
  "error_delta (init_network ii io ih ih2 s) = error_delta s"
  "config_flags (init_network ii io ih ih2 s) = config_flags s"
  "learning_rate (init_network ii io ih ih2 s) = learning_rate s"
  "error_amplification (init_network ii io ih ih2 s) = error_amplification s"
  "sigmoid_steepness (init_network ii io ih ih2 s) = sigmoid_steepness s"
  "timesteps (init_network ii io ih ih2 s) = timesteps s"
  "bias (init_network ii io ih ih2 s) = bias s"
  "init_range_weight (init_network ii io ih ih2 s) = init_range_weight s"
  "init_range_threshold (init_network ii io ih ih2 s) = init_range_threshold s"
proof -
  let ?b = "set_dimensions ii io ih ih2 s"
  have f: "init_frame (fold init_out_network [0 .. io - 1] ?b) = init_frame ?b"
    using building_fold [of ii io ih ih2 s "[0 .. io - 1]"] by (simp add: building_def)
  show "size_input (init_network ii io ih ih2 s) = ii"
  "size_output (init_network ii io ih ih2 s) = io"
  "size_hidden (init_network ii io ih ih2 s) = ih + ih2"
  "size_hidden2 (init_network ii io ih ih2 s) = ih2"
  "total_neurons (init_network ii io ih ih2 s) = ii + 1 + (ih + ih2)"
  "error_count (init_network ii io ih ih2 s) = 0"
  "error_total (init_network ii io ih ih2 s) = 0"
  "neuron_output (init_network ii io ih ih2 s) = neuron_output s"
  "error_delta (init_network ii io ih ih2 s) = error_delta s"
  "config_flags (init_network ii io ih ih2 s) = config_flags s"
  "learning_rate (init_network ii io ih ih2 s) = learning_rate s"
  "error_amplification (init_network ii io ih ih2 s) = error_amplification s"
  "sigmoid_steepness (init_network ii io ih ih2 s) = sigmoid_steepness s"
  "timesteps (init_network ii io ih ih2 s) = timesteps s"
  "bias (init_network ii io ih ih2 s) = bias s"
  "init_range_weight (init_network ii io ih ih2 s) = init_range_weight s"
  "init_range_threshold (init_network ii io ih ih2 s) = init_range_threshold s"
    by (simp_all add: init_network_unfold init_frame_fields [OF f] set_dimensions_fields)
qed

lemma init_network_oscillating:
  "weights_oscillating (init_network ii io ih ih2 s) =
     (if 1 \<le> io then polarity ii (ii + 1 + (ih + ih2)) (weights_oscillating s)
      else weights_oscillating s)"
proof (cases "1 \<le> io")
  case False
  then show ?thesis
    by (simp add: init_network_unfold set_dimensions_fields)
next
  case True
  then have l: "[0 .. io - 1] = 0 # [1 .. io - 1]" by (simp add: upto_rec1)
  let ?t = "init_out_network 0 (set_dimensions ii io ih ih2 s)"
  let ?pol = "polarity ii (ii + 1 + (ih + ih2)) (weights_oscillating s)"
  have "building ii io ih ih2 s (fold init_out_network ns ?t)
      \<and> weights_oscillating (fold init_out_network ns ?t) = ?pol" for ns
  proof (rule fold_inv)
    show "building ii io ih ih2 s ?t \<and> weights_oscillating ?t = ?pol"
      using building_step [OF building_start [of ii io ih ih2 s], of 0] by blast
    show "building ii io ih ih2 s (init_out_network x t)
        \<and> weights_oscillating (init_out_network x t) = ?pol"
      if "building ii io ih ih2 s t \<and> weights_oscillating t = ?pol" for x t
      using that building_step [where t = t and n = x and s = s] by blast
  qed
  then have "weights_oscillating (fold init_out_network [1 .. io - 1] ?t) = ?pol" by blast
  then show ?thesis using True by (simp add: init_network_unfold l)
qed

lemma init_network_cell:
  assumes "0 \<le> n" and "n < io"
    and "ii + 2 \<le> c" and "c \<le> ii + 1 + (ih + ih2) + 1"
    and "0 \<le> k" and "k \<le> ii + 1 + (ih + ih2) + 1"
    and own: "\<And>u. building ii io ih ih2 s u \<Longrightarrow>
           weights_oscillating u = polarity ii (ii + 1 + (ih + ih2)) (weights_oscillating s)
           \<Longrightarrow> Q (weights (init_connection n c k u) n c k)"
  shows "Q (weights (init_network ii io ih ih2 s) n c k)"
proof -
  let ?b = "set_dimensions ii io ih ih2 s"
  have "Q (weights (fold init_out_network [0 .. io - 1] ?b) n c k)"
  proof (rule fold_cell [where R = "building ii io ih ih2 s"
        and obs = "\<lambda>t. weights t n c k" and x = n])
    show "distinct [0 .. io - 1]" by simp
    show "n \<in> set [0 .. io - 1]" using assms(1,2) by simp
    show "building ii io ih ih2 s ?b" by (rule building_start)
    show "building ii io ih ih2 s (init_out_network y t)" if "building ii io ih ih2 s t" for y t
      using that by (rule building_step)
    show "weights (init_out_network y t) n c k = weights t n c k" if "y \<noteq> n" for y t
      using that by (simp add: init_out_network_other)
    show "Q (weights (init_out_network n t) n c k)" if b: "building ii io ih ih2 s t" for t
    proof (rule init_out_network_cell)
      show "(c, k) \<in> set (pairs t)" using assms(3-6) by (simp add: building_pairs [OF b])
      fix u
      assume f: "init_frame u = init_frame t"
        and o: "weights_oscillating u
            = polarity (size_input t) (total_neurons t) (weights_oscillating t)"
      have o': "weights_oscillating u = polarity ii (ii + 1 + (ih + ih2)) (weights_oscillating s)"
        using o building_step(2) [OF b, of n]
        by (simp add: weights_oscillating_init_out_network)
      moreover have "building ii io ih ih2 s u"
        using b f o' by (simp add: building_def)
      ultimately show "Q (weights (init_connection n c k u) n c k)" by (rule own [rotated])
    qed
  qed
  then show ?thesis by (simp add: init_network_unfold)
qed

lemma init_network_other:
  assumes "\<not> (0 \<le> n \<and> n < io \<and> ii + 2 \<le> c \<and> c \<le> ii + 1 + (ih + ih2) + 1
              \<and> 0 \<le> k \<and> k \<le> ii + 1 + (ih + ih2) + 1)"
  shows "weights (init_network ii io ih ih2 s) n c k = weights s n c k"
proof -
  let ?b = "set_dimensions ii io ih ih2 s"
  have "building ii io ih ih2 s (fold init_out_network ns ?b)
      \<and> weights (fold init_out_network ns ?b) n c k = weights s n c k"
    if "set ns \<subseteq> {0 ..< io}" for ns
    using that
  proof (induction ns rule: rev_induct)
    case Nil
    show ?case by (simp add: building_start set_dimensions_fields)
  next
    case (snoc y ns)
    then have b: "building ii io ih ih2 s (fold init_out_network ns ?b)"
      and w: "weights (fold init_out_network ns ?b) n c k = weights s n c k"
      and y: "0 \<le> y" "y < io" by auto
    have "n \<noteq> y \<or> (c, k) \<notin> set (pairs (fold init_out_network ns ?b))"
      using assms y by (auto simp add: building_pairs [OF b])
    then show ?case
      using w building_step(1) [OF b, of y] by (simp add: init_out_network_other)
  qed
  moreover have "set [0 .. io - 1] \<subseteq> {0 ..< io}" by auto
  ultimately have "weights (fold init_out_network [0 .. io - 1] ?b) n c k = weights s n c k"
    by blast
  then show ?thesis by (simp add: init_network_unfold)
qed

lemma init_network_neuron_input:
  assumes "\<And>n i. Q (neuron_input s n i)" and "Q (bias s)"
  shows "Q (neuron_input (init_network ii io ih ih2 s) n i)"
proof -
  let ?b = "set_dimensions ii io ih ih2 s"
  have "building ii io ih ih2 s (fold init_out_network ns ?b)
      \<and> (\<forall>n i. Q (neuron_input (fold init_out_network ns ?b) n i))" for ns
  proof (rule fold_inv)
    show "building ii io ih ih2 s ?b \<and> (\<forall>n i. Q (neuron_input ?b n i))"
      by (simp add: building_start set_dimensions_fields assms)
    show "building ii io ih ih2 s (init_out_network x t)
        \<and> (\<forall>n i. Q (neuron_input (init_out_network x t) n i))"
      if h: "building ii io ih ih2 s t \<and> (\<forall>n i. Q (neuron_input t n i))" for x t
    proof -
      from h have b: "building ii io ih ih2 s t" by blast
      have "Q (bias t)" using assms(2) by (simp add: building_dims(8) [OF b])
      then show ?thesis
        using h building_step(1) [OF b, of x] by (simp add: neuron_input_init_out_network)
    qed
  qed
  then show ?thesis by (simp add: init_network_unfold)
qed

section \<open>The example networks\<close>

lemma default_parameters_fields:
  "config_flags default_parameters 3 = 1" "config_flags default_parameters 6 = 1"
  "config_flags default_parameters 7 = 1" "config_flags default_parameters 10 = 0"
  "config_flags default_parameters 11 = 1"
  "init_range_weight default_parameters = 1" "init_range_threshold default_parameters = 1"
  "timesteps default_parameters = 2" "sigmoid_steepness default_parameters = 2 / 5"
  "learning_rate default_parameters = 4 / 5" "bias default_parameters = 4 / 5"
  "error_amplification default_parameters = 1"
  "rand_stream default_parameters = rand_example"
  "weights default_parameters = (\<lambda>_ _ _. 0)"
  "weights_oscillating default_parameters = (\<lambda>_. 0)"
  "neuron_input default_parameters = (\<lambda>_ _. 0)"
  "neuron_output default_parameters = (\<lambda>_ _. 0)"
  "error_delta default_parameters = (\<lambda>_ _ _. 0)"
  by (simp_all add: default_parameters_def user_input_network_params_def startup_def)

lemma bidirectional_parameters_fields:
  "config_flags bidirectional_parameters 3 = 1" "config_flags bidirectional_parameters 6 = 1"
  "config_flags bidirectional_parameters 7 = 1" "config_flags bidirectional_parameters 10 = 1"
  "config_flags bidirectional_parameters 11 = 1"
  "init_range_weight bidirectional_parameters = 1 / 25"
  "init_range_threshold bidirectional_parameters = 1"
  "timesteps bidirectional_parameters = 1" "sigmoid_steepness bidirectional_parameters = 2 / 5"
  "learning_rate bidirectional_parameters = 4 / 5" "bias bidirectional_parameters = 0"
  "error_amplification bidirectional_parameters = 1"
  "rand_stream bidirectional_parameters = rand_example"
  "weights bidirectional_parameters = (\<lambda>_ _ _. 0)"
  "weights_oscillating bidirectional_parameters = (\<lambda>_. 0)"
  "neuron_input bidirectional_parameters = (\<lambda>_ _. 0)"
  "neuron_output bidirectional_parameters = (\<lambda>_ _. 0)"
  "error_delta bidirectional_parameters = (\<lambda>_ _ _. 0)"
  by (simp_all add: bidirectional_parameters_def user_input_network_params_def startup_def)

lemma rand_example_draw:
  assumes "rand_stream s = rand_example"
  shows "0 < draw s j"
proof -
  have "odd (rand_example j)" by (simp add: rand_example_def)
  then have "\<not> 10000 dvd rand_example j" by (meson dvd_trans even_numeral)
  then have "rand_example j mod 10000 \<noteq> 0" by (simp add: mod_eq_0_iff_dvd)
  then have "0 < rand_example j mod 10000" by simp
  then show ?thesis by (simp add: draw_def assms)
qed

lemma polarity_at:
  "polarity a b f (a + 2) = 1"
  "0 \<le> i \<Longrightarrow> i \<le> b + 1 \<Longrightarrow> i \<noteq> a + 2 \<Longrightarrow> even i \<Longrightarrow> polarity a b f i = 1"
  "0 \<le> i \<Longrightarrow> i \<le> b + 1 \<Longrightarrow> i \<noteq> a + 2 \<Longrightarrow> odd i \<Longrightarrow> polarity a b f i = - 1"
proof -
  show "polarity a b f (a + 2) = 1" by (simp add: polarity_def)
  show "polarity a b f i = 1" if "0 \<le> i" "i \<le> b + 1" "i \<noteq> a + 2" "even i"
  proof -
    have "(i + 1) smod 2 = (i + 1) mod 2" using that by (simp add: signed_modulo_int_def sgn_if)
    also have "\<dots> = 1" using that(4) by presburger
    finally show ?thesis using that by (simp add: polarity_def)
  qed
  show "polarity a b f i = - 1" if "0 \<le> i" "i \<le> b + 1" "i \<noteq> a + 2" "odd i"
  proof -
    have "(i + 1) smod 2 = (i + 1) mod 2" using that by (simp add: signed_modulo_int_def sgn_if)
    also have "\<dots> = 0" using that(4) by presburger
    finally show ?thesis using that by (simp add: polarity_def)
  qed
qed

text \<open>A weight drawn with the weight range: nonzero when range, draw and polarities are.\<close>

lemma drawn_nonzero:
  assumes "\<exists>j. w = r * draw u j * (p * q)" and "rand_stream u = rand_example"
    and "r \<noteq> 0" and "p \<noteq> 0" and "q \<noteq> 0"
  shows "w \<noteq> 0"
proof -
  from assms(1) obtain j where "w = r * draw u j * (p * q)" by blast
  moreover have "draw u j \<noteq> 0" using rand_example_draw [OF assms(2), of j] by simp
  ultimately show ?thesis using assms(3-5) by simp
qed

lemma second_layer_network_weight: "weights second_layer_network 0 6 5 \<noteq> 0"
  unfolding second_layer_network_def
proof (rule init_network_cell)
  fix u
  assume b: "building 2 1 1 1 default_parameters u"
    and o: "weights_oscillating u = polarity 2 (2 + 1 + (1 + 1)) (weights_oscillating default_parameters)"
  have d: "size_input u = 2" "total_neurons u = 5" "size_hidden2 u = 1"
    "init_range_weight u = 1" "rand_stream u = rand_example"
    using building_dims [OF b] by (simp_all add: default_parameters_fields)
  have e: "\<exists>j. weights (init_connection 0 6 5 u) 0 6 5
          = init_range_weight u * draw u j * (weights_oscillating u 5 * weights_oscillating u 6)"
    by (rule init_connection_second_layer) (simp_all add: d)
  have p5: "weights_oscillating u 5 = - 1"
    unfolding o by (rule polarity_at(3)) simp_all
  have p6: "weights_oscillating u 6 = 1"
    unfolding o by (rule polarity_at(2)) simp_all
  show "weights (init_connection 0 6 5 u) 0 6 5 \<noteq> 0"
    by (rule drawn_nonzero [OF e d(5)]) (simp_all add: d p5 p6)
qed simp_all

lemma default_network_fields:
  "size_input default_network = 8" "size_output default_network = 1"
  "size_hidden2 default_network = 0" "total_neurons default_network = 17"
  "config_flags default_network 6 = 1" "config_flags default_network 10 = 0"
  "timesteps default_network = 2" "sigmoid_steepness default_network = 2 / 5"
  by (simp_all add: default_network_def init_network_fields default_parameters_fields)

lemma default_network_nonzero: "weights default_network 0 10 11 \<noteq> 0"
  unfolding default_network_def
proof (rule init_network_cell)
  fix u
  assume b: "building 8 1 8 0 default_parameters u"
    and o: "weights_oscillating u = polarity 8 (8 + 1 + (8 + 0)) (weights_oscillating default_parameters)"
  have d: "size_input u = 8" "total_neurons u = 17" "size_hidden2 u = 0"
    "init_range_weight u = 1" "rand_stream u = rand_example"
    using building_dims [OF b] by (simp_all add: default_parameters_fields)
  have e: "\<exists>j. weights (init_connection 0 10 11 u) 0 10 11
          = init_range_weight u * draw u j * (weights_oscillating u 11 * weights_oscillating u 10)"
    by (rule init_connection_output_from_hidden) (simp_all add: d)
  have p11: "weights_oscillating u 11 = - 1"
    unfolding o by (rule polarity_at(3)) simp_all
  have p10: "weights_oscillating u 10 = 1"
    unfolding o using polarity_at(1) [of 8] by simp
  show "weights (init_connection 0 10 11 u) 0 10 11 \<noteq> 0"
    by (rule drawn_nonzero [OF e d(5)]) (simp_all add: d p11 p10)
qed simp_all

lemma odd_input_network_nonzero: "weights odd_input_network 0 5 6 \<noteq> 0"
  unfolding odd_input_network_def
proof (rule init_network_cell)
  fix u
  assume b: "building 3 1 2 0 default_parameters u"
    and o: "weights_oscillating u = polarity 3 (3 + 1 + (2 + 0)) (weights_oscillating default_parameters)"
  have d: "size_input u = 3" "total_neurons u = 6" "size_hidden2 u = 0"
    "init_range_weight u = 1" "rand_stream u = rand_example"
    using building_dims [OF b] by (simp_all add: default_parameters_fields)
  have e: "\<exists>j. weights (init_connection 0 5 6 u) 0 5 6
          = init_range_weight u * draw u j * (weights_oscillating u 6 * weights_oscillating u 5)"
    by (rule init_connection_output_from_hidden) (simp_all add: d)
  have p6: "weights_oscillating u 6 = 1"
    unfolding o by (rule polarity_at(2)) simp_all
  have p5: "weights_oscillating u 5 = 1"
    unfolding o using polarity_at(1) [of 3] by simp
  show "weights (init_connection 0 5 6 u) 0 5 6 \<noteq> 0"
    by (rule drawn_nonzero [OF e d(5)]) (simp_all add: d p6 p5)
qed simp_all

lemma init_network_cut:
  assumes "config_flags s 6 = 1" and "0 \<le> ii" and "0 \<le> n" and "n < io"
    and "ii + 3 \<le> c" and "c \<le> ii + 1 + (ih + ih2) + 1"
    and "ii + 3 \<le> k" and "k \<le> ii + 1 + (ih + ih2) + 1"
    and "c \<noteq> k" and "c \<le> ii + 1 + (ih + ih2) + 1 - ih2"
  shows "weights (init_network ii io ih ih2 s) n c k = 0"
proof (rule init_network_cell)
  fix u
  assume b: "building ii io ih ih2 s u"
  have d: "size_input u = ii" "total_neurons u = ii + 1 + (ih + ih2)" "size_hidden2 u = ih2"
    "config_flags u = config_flags s"
    using building_dims [OF b] by simp_all
  show "weights (init_connection n c k u) n c k = 0"
    by (rule init_connection_cut) (use assms in \<open>simp_all add: d\<close>)
qed (use assms in simp_all)

lemma default_network_cut: "weights default_network 0 11 12 = 0"
  unfolding default_network_def
  by (rule init_network_cut) (simp_all add: default_parameters_fields)

lemma weights_calculate_output: "weights (calculate_output inp s) = weights s"
  by (rule output_frame_fields [OF output_frame_calculate_output])

lemma weights_calculate_learning: "weights (calculate_learning tgt s) = weights s"
  by (rule learning_frame_fields [OF calculate_learning_frame])

lemma calculate_output_fields:
  "size_input (calculate_output inp s) = size_input s"
  "size_output (calculate_output inp s) = size_output s"
  "total_neurons (calculate_output inp s) = total_neurons s"
  "config_flags (calculate_output inp s) = config_flags s"
  by (rule output_frame_fields [OF output_frame_calculate_output])+

lemma calculate_learning_fields:
  "size_input (calculate_learning tgt s) = size_input s"
  "size_output (calculate_learning tgt s) = size_output s"
  "total_neurons (calculate_learning tgt s) = total_neurons s"
  "config_flags (calculate_learning tgt s) = config_flags s"
  by (rule learning_frame_fields [OF calculate_learning_frame])+

lemma default_diffused_fields:
  "size_input default_diffused = 8" "size_output default_diffused = 1"
  "total_neurons default_diffused = 17" "config_flags default_diffused 10 = 0"
  "weights default_diffused = weights default_network"
  by (simp_all add: default_diffused_def calculate_output_fields calculate_learning_fields
      weights_calculate_output weights_calculate_learning default_network_fields)

lemma default_forward_fields:
  "size_input default_forward = 8" "size_output default_forward = 1"
  "total_neurons default_forward = 17"
  by (simp_all add: default_forward_def calculate_output_fields default_network_fields)

lemma sign_invariant_init_network:
  assumes "zero_initialised s" and "0 \<le> init_range_weight s" and "0 \<le> init_range_threshold s"
    and "config_flags s 10 \<noteq> 1" and "0 \<le> learning_rate s" and "0 \<le> error_amplification s"
    and "0 \<le> bias s"
  shows "sign_invariant (init_network ii io ih ih2 s)"
proof -
  let ?s' = "init_network ii io ih ih2 s"
  let ?tot = "ii + 1 + (ih + ih2)"
  let ?pol = "polarity ii ?tot (weights_oscillating s)"
  from assms(1) have z: "neuron_input s = (\<lambda>_ _. 0)" "neuron_output s = (\<lambda>_ _. 0)"
    "error_delta s = (\<lambda>_ _ _. 0)" "weights s = (\<lambda>_ _ _. 0)"
    "weights_oscillating s = (\<lambda>_. 0)"
    by (simp_all add: zero_initialised_def)
  have w: "\<exists>m\<ge>0. weights ?s' n c k = m * (weights_oscillating ?s' k * weights_oscillating ?s' c)"
    for n c k
  proof (cases "0 \<le> n \<and> n < io \<and> ii + 2 \<le> c \<and> c \<le> ?tot + 1 \<and> 0 \<le> k \<and> k \<le> ?tot + 1")
    case False
    then have "weights ?s' n c k = 0" by (simp add: init_network_other z)
    then show ?thesis by (intro exI [of _ 0]) simp
  next
    case True
    then have o: "weights_oscillating ?s' = ?pol" by (simp add: init_network_oscillating)
    have "\<exists>m\<ge>0. weights ?s' n c k = m * (?pol k * ?pol c)"
    proof (rule init_network_cell)
      fix u
      assume b: "building ii io ih ih2 s u" and ou: "weights_oscillating u = ?pol"
      have "\<exists>m\<ge>0. weights (init_connection n c k u) n c k
          = m * (weights_oscillating u k * weights_oscillating u c)"
        by (rule init_connection_sign) (simp_all add: building_dims [OF b] assms)
      then show "\<exists>m\<ge>0. weights (init_connection n c k u) n c k = m * (?pol k * ?pol c)"
        by (simp only: ou)
    qed (use True in simp_all)
    then show ?thesis by (simp only: o)
  qed
  have p: "weights_oscillating ?s' i \<in> {- 1, 0, 1}" for i
    using polarity_values [of ii ?tot i] by (simp add: init_network_oscillating z)
  have i: "0 \<le> neuron_input ?s' n j" for n j
    by (rule init_network_neuron_input) (simp_all add: z assms)
  show ?thesis
    unfolding sign_invariant_def
    using w p i assms(4-6) by (simp add: init_network_fields z)
qed

section \<open>Training runs in selective mode\<close>

lemma neuron_input_bodies:
  "neuron_input (activate n c s) = neuron_input s"
  "neuron_input (feedback n c s) n' c' =
     (if n' = n \<and> c' = c then neuron_output s n c else neuron_input s n' c')"
  "neuron_input (clear_hidden n c s) n' c' =
     (if n' = n \<and> c' = c then 0 else neuron_input s n' c')"
  "neuron_input (distribute_input n inp c s) n' c' =
     (if n' = n \<and> c' = c then inp (c sdiv 2 - 1) else neuron_input s n' c')"
  by (simp_all add: activate_def feedback_def clear_hidden_def distribute_input_def
      set_neuron_input_def set_neuron_output_def)

lemma activations_bounded_bodies:
  assumes "activations_bounded t"
  shows "activations_bounded (activate n c t)" "activations_bounded (feedback n c t)"
    "activations_bounded (clear_hidden n c t)"
    "(\<forall>i. 0 \<le> inp i) \<Longrightarrow> activations_bounded (distribute_input n inp c t)"
proof -
  have "0 \<le> sigmoid t x \<and> sigmoid t x \<le> 1" for x
    using sigmoid_open [of t x] by (simp add: unit_open_def)
  then show "activations_bounded (activate n c t)"
    using assms by (simp add: activations_bounded_def neuron_output_bodies neuron_input_bodies)
  show "activations_bounded (feedback n c t)"
    using assms by (simp add: activations_bounded_def neuron_output_bodies neuron_input_bodies)
  show "activations_bounded (clear_hidden n c t)"
    using assms by (simp add: activations_bounded_def neuron_output_bodies neuron_input_bodies)
  show "activations_bounded (distribute_input n inp c t)" if "\<forall>i. 0 \<le> inp i"
    using assms that by (simp add: activations_bounded_def neuron_output_bodies neuron_input_bodies)
qed

lemma activations_bounded_timestep:
  "activations_bounded t \<Longrightarrow> activations_bounded (timestep n t)"
  by (simp add: timestep_def Let_def fold_inv activations_bounded_bodies)

lemma activations_bounded_output_network:
  assumes "activations_bounded t" and "\<forall>i. 0 \<le> inp i"
  shows "activations_bounded (output_network inp n t)"
proof -
  have a: "activations_bounded (fold (distribute_input n inp) cs u)"
    if "activations_bounded u" for cs u
    using that by (rule fold_inv) (simp add: activations_bounded_bodies assms(2))
  have b: "activations_bounded (fold (clear_hidden n) cs u)" if "activations_bounded u" for cs u
    using that by (rule fold_inv) (simp add: activations_bounded_bodies)
  have c: "activations_bounded (fold (\<lambda>t. timestep n) ts u)" if "activations_bounded u" for ts u
    using that by (rule fold_inv) (simp add: activations_bounded_timestep)
  show ?thesis
    by (simp add: output_network_def Let_def a b c assms(1))
qed

lemma activations_bounded_calculate_output:
  assumes "activations_bounded s" and "\<forall>i. 0 \<le> inp i"
  shows "activations_bounded (calculate_output inp s)"
  unfolding calculate_output_def
  using assms(1) by (rule fold_inv) (simp add: activations_bounded_output_network assms(2))

lemma sign_invariant_calculate_output:
  assumes "sign_invariant s" and "\<forall>i. 0 \<le> inp i"
  shows "sign_invariant (calculate_output inp s)"
proof -
  note f = output_frame_fields [OF output_frame_calculate_output [of inp s]]
  have "activations_bounded s"
    using assms(1) by (simp add: sign_invariant_def activations_bounded_def)
  then have "activations_bounded (calculate_output inp s)"
    using assms(2) by (rule activations_bounded_calculate_output)
  then show ?thesis
    using assms(1) by (simp add: sign_invariant_def activations_bounded_def f)
qed

lemma sign_invariant_calculate_learning:
  assumes "sign_invariant s"
  shows "sign_invariant (calculate_learning tgt s)"
proof -
  note f = learning_frame_fields [OF calculate_learning_frame [of tgt s]]
  from assms have amp: "0 \<le> error_amplification s"
    and e: "\<And>n c ch. 0 \<le> error_delta s n c ch"
    by (simp_all add: sign_invariant_def)
  let ?P = "\<lambda>t. learning_frame t = learning_frame s \<and> (\<forall>n c ch. 0 \<le> error_delta t n c ch)"
  have "?P (fold (learning_output tgt) ns s)" for ns
  proof (rule fold_inv)
    show "?P s" using e by simp
    show "?P (learning_output tgt x t)" if "?P t" for x t
    proof -
      from that have ft: "learning_frame t = learning_frame s" by blast
      have "0 \<le> error_amplification t" using amp by (simp add: learning_frame_fields [OF ft])
      moreover have "0 \<le> error_excitatory v" "0 \<le> error_inhibitory v" for v
        by (simp_all add: error_excitatory_def error_inhibitory_def)
      ultimately have "0 \<le> error_delta (learning_output tgt x t) n c ch" for n c ch
        using that by (simp add: error_delta_learning_output Let_def)
      then show ?thesis using ft by (simp add: learning_frame_learning_output)
    qed
  qed
  then have "\<forall>n c ch. 0 \<le> error_delta (calculate_learning tgt s) n c ch"
    by (simp add: calculate_learning_def)
  then show ?thesis
    using assms by (simp add: sign_invariant_def f)
qed

lemma only_weights_error_amplification:
  assumes "only_weights s t"
  shows "error_amplification t = error_amplification s"
proof -
  from assms have e: "t\<lparr>weights := weights s\<rparr> = s" by (simp add: only_weights_def)
  from arg_cong [OF e, of error_amplification] show ?thesis by simp
qed

lemma sign_invariant_calculate_weight:
  assumes "sign_invariant s"
  shows "sign_invariant (calculate_weight s)"
proof -
  note f = only_weights_fields [OF only_weights_calculate_weight [of s]]
  have "\<exists>m\<ge>0. weights (calculate_weight s) n c k
          = m * (weights_oscillating s k * weights_oscillating s c)" for n c k
  proof -
    from assms obtain m where m: "0 \<le> m"
      "weights s n c k = m * (weights_oscillating s k * weights_oscillating s c)"
      unfolding sign_invariant_def by blast
    define delta where "delta = learning_rate s * neuron_input s n k
        * \<bar>neuron_output s n c\<bar> * (1 - \<bar>neuron_output s n c\<bar>)"
    define e where "e = (if weights_oscillating s k > 0 then error_delta s n c 0
        else error_delta s n c 1)"
    from assms have o: "0 \<le> neuron_output s n c" "neuron_output s n c \<le> 1"
      and i: "0 \<le> neuron_input s n k" and l: "0 \<le> learning_rate s"
      and ed: "0 \<le> error_delta s n c 0" "0 \<le> error_delta s n c 1"
      unfolding sign_invariant_def by blast+
    have "0 \<le> learning_rate s" "0 \<le> neuron_input s n k"
      "0 \<le> 1 - \<bar>neuron_output s n c\<bar>" "0 \<le> e"
      using o i l ed by (simp_all add: e_def)
    then have d: "0 \<le> delta * e" by (simp add: delta_def)
    have sel: "config_flags s 10 \<noteq> 1" using assms by (simp add: sign_invariant_def)
    have "weights (update_connection n c k s) n c k = weights s n c k
        \<or> weights (update_connection n c k s) n c k
            = weights s n c k + delta * e * weights_oscillating s k * weights_oscillating s c"
      using sel by (simp add: update_connection_def Let_def weights_set_weight delta_def e_def)
    then have "weights (update_connection n c k s) n c k
          = m * (weights_oscillating s k * weights_oscillating s c)
        \<or> weights (update_connection n c k s) n c k
          = (m + delta * e) * (weights_oscillating s k * weights_oscillating s c)"
      by (auto simp add: m(2) algebra_simps)
    then have "\<exists>m'\<ge>0. weights (update_connection n c k s) n c k
          = m' * (weights_oscillating s k * weights_oscillating s c)"
      using m(1) d by (metis add_nonneg_nonneg)
    then show ?thesis
      using m by (auto simp add: calculate_weight_weights)
  qed
  then show ?thesis
    using assms
    by (simp add: sign_invariant_def f
        only_weights_error_amplification [OF only_weights_calculate_weight])
qed

lemma selective_training_invariant: "selective_training s \<Longrightarrow> sign_invariant s"
proof (induction rule: selective_training.induct)
  case (initialised s init_input init_output init_hidden init_hidden2)
  then show ?case by (intro sign_invariant_init_network)
next
  case (forward s input_pattern_current)
  then show ?case by (intro sign_invariant_calculate_output)
next
  case (diffuse s target_pattern_current)
  then show ?case by (intro sign_invariant_calculate_learning)
next
  case (update s)
  then show ?case by (intro sign_invariant_calculate_weight)
qed

lemma sign_of_product:
  assumes "0 \<le> m" and "p \<in> {- 1, 0, 1}" and "q \<in> {- 1, 0, 1}"
  shows "m * (p * q) = 0 \<or> signage (m * (p * q)) = p * q"
  using assms by (auto simp add: signage_def)

section \<open>One training example in bidirectional mode\<close>

lemma weighted_sum_zero:
  assumes "\<forall>i. neuron_input t n i = 0"
  shows "weighted_sum n c t = 0"
  unfolding weighted_sum_def
  by (rule fold_inv [where P = "\<lambda>acc. acc = 0"]) (simp_all add: assms)

lemma sigmoid_zero: "sigmoid t 0 = 1 / 2"
  by (simp add: sigmoid_def)

lemma activate_reads:
  "weighted_sum n' c' (activate n c t) = weighted_sum n' c' t"
  "sigmoid (activate n c t) = sigmoid t"
  by (simp_all add: weighted_sum_def activate_def set_neuron_output_def sigmoid_def fun_eq_iff)

lemma neuron_output_fold_activate:
  "neuron_output (fold (activate n) cs t) n' c' =
     (if n' = n \<and> c' \<in> set cs then sigmoid t (weighted_sum n c' t) else neuron_output t n' c')"
proof (induction cs arbitrary: t)
  case Nil
  show ?case by simp
next
  case (Cons c cs)
  show ?case
    by (auto simp add: Cons.IH activate_reads neuron_output_bodies)
qed

lemma neuron_input_fold_activate: "neuron_input (fold (activate n) cs t) = neuron_input t"
  by (rule fold_frame) (rule neuron_input_bodies)

lemma neuron_input_fold_feedback:
  "neuron_input (fold (feedback n) cs t) n' c' =
     (if n' = n \<and> c' \<in> set cs then neuron_output t n c' else neuron_input t n' c')"
proof (induction cs arbitrary: t)
  case Nil
  show ?case by simp
next
  case (Cons c cs)
  show ?case
    by (auto simp add: Cons.IH neuron_output_bodies neuron_input_bodies)
qed

lemma timestep_from_zero:
  assumes "\<forall>i. neuron_input t n i = 0"
    and "size_input t + 2 \<le> c" and "c \<le> total_neurons t + 1"
  shows "neuron_output (timestep n t) n c = 1 / 2" "neuron_input (timestep n t) n c = 1 / 2"
proof -
  let ?cs = "[size_input t + 2 .. total_neurons t + 1]"
  let ?t1 = "fold (activate n) ?cs t"
  have f: "output_frame ?t1 = output_frame t"
    by (rule fold_frame) (rule output_frame_bodies)
  have o: "neuron_output ?t1 n c = 1 / 2"
    using assms by (simp add: neuron_output_fold_activate weighted_sum_zero sigmoid_zero)
  show "neuron_output (timestep n t) n c = 1 / 2"
    using o by (simp add: timestep_def Let_def neuron_output_fold_feedback)
  show "neuron_input (timestep n t) n c = 1 / 2"
    using o assms(2,3)
    by (simp add: timestep_def Let_def neuron_input_fold_feedback output_frame_fields [OF f])
qed

lemma forward_from_zero:
  assumes "size_output s = 1" and "timesteps s = 1" and "\<forall>i. neuron_input s 0 i = 0"
    and "size_input s + 2 \<le> c" and "c \<le> total_neurons s + 1"
  shows "neuron_output (calculate_output (\<lambda>_. 0) s) 0 c = 1 / 2"
    "neuron_input (calculate_output (\<lambda>_. 0) s) 0 c = 1 / 2"
proof -
  define s1 where "s1 = fold (distribute_input 0 (\<lambda>_. 0)) [2 .. size_input s + 1] s"
  define s2 where "s2 = (if config_flags s1 6 \<noteq> 0
      then fold (clear_hidden 0) [size_input s1 + 2 .. total_neurons s1 + 1] s1 else s1)"
  let ?Z = "\<lambda>t. output_frame t = output_frame s \<and> (\<forall>i. neuron_input t 0 i = 0)"
  have z1: "?Z s1"
    unfolding s1_def
    by (rule fold_inv) (simp_all add: assms(3) output_frame_bodies neuron_input_bodies)
  have "?Z (fold (clear_hidden 0) cs s1)" for cs
    by (rule fold_inv) (simp_all add: z1 output_frame_bodies neuron_input_bodies)
  then have z2: "?Z s2" using z1 by (simp add: s2_def)
  then have f2: "output_frame s2 = output_frame s" and i2: "\<forall>i. neuron_input s2 0 i = 0"
    by blast+
  have net: "output_network (\<lambda>_. 0) 0 s = timestep 0 s2"
    by (simp add: output_network_def Let_def s1_def [symmetric] s2_def [symmetric]
        output_frame_fields [OF f2] assms(2))
  have "calculate_output (\<lambda>_. 0) s = timestep 0 s2"
    by (simp add: calculate_output_def assms(1) net)
  moreover have "size_input s2 + 2 \<le> c" "c \<le> total_neurons s2 + 1"
    using assms(4,5) by (simp_all add: output_frame_fields [OF f2])
  ultimately show "neuron_output (calculate_output (\<lambda>_. 0) s) 0 c = 1 / 2"
    "neuron_input (calculate_output (\<lambda>_. 0) s) 0 c = 1 / 2"
    using timestep_from_zero [OF i2] by simp_all
qed

lemma bidirectional_network_fields:
  "size_input bidirectional_network = 2" "size_output bidirectional_network = 1"
  "total_neurons bidirectional_network = 4"
  "config_flags bidirectional_network 10 = 1" "timesteps bidirectional_network = 1"
  "learning_rate bidirectional_network = 4 / 5"
  "weights_oscillating bidirectional_network 4 = 1"
  "weights_oscillating bidirectional_network 5 = - 1"
  "neuron_input bidirectional_network n i = 0"
proof -
  show "size_input bidirectional_network = 2" "size_output bidirectional_network = 1"
    "total_neurons bidirectional_network = 4"
    "config_flags bidirectional_network 10 = 1" "timesteps bidirectional_network = 1"
    "learning_rate bidirectional_network = 4 / 5"
    by (simp_all add: bidirectional_network_def init_network_fields
        bidirectional_parameters_fields)
  have o: "weights_oscillating bidirectional_network = polarity 2 4 (\<lambda>_. 0)"
    by (simp add: bidirectional_network_def init_network_oscillating
        bidirectional_parameters_fields)
  show "weights_oscillating bidirectional_network 4 = 1"
    unfolding o using polarity_at(1) [of 2] by simp
  show "weights_oscillating bidirectional_network 5 = - 1"
    unfolding o by (rule polarity_at(3)) simp_all
  show "neuron_input bidirectional_network n i = 0"
    unfolding bidirectional_network_def
    by (rule init_network_neuron_input) (simp_all add: bidirectional_parameters_fields)
qed

lemma bidirectional_network_weight:
  "- (1 / 25) < weights bidirectional_network 0 4 5 \<and> weights bidirectional_network 0 4 5 < 0"
  unfolding bidirectional_network_def
proof (rule init_network_cell)
  fix u
  assume b: "building 2 1 1 0 bidirectional_parameters u"
    and o: "weights_oscillating u
        = polarity 2 (2 + 1 + (1 + 0)) (weights_oscillating bidirectional_parameters)"
  have d: "size_input u = 2" "total_neurons u = 4" "size_hidden2 u = 0"
    "init_range_weight u = 1 / 25" "rand_stream u = rand_example"
    using building_dims [OF b] by (simp_all add: bidirectional_parameters_fields)
  have "\<exists>j. weights (init_connection 0 4 5 u) 0 4 5
          = init_range_weight u * draw u j * (weights_oscillating u 5 * weights_oscillating u 4)"
    by (rule init_connection_output_from_hidden) (simp_all add: d)
  then obtain j where j: "weights (init_connection 0 4 5 u) 0 4 5
          = init_range_weight u * draw u j * (weights_oscillating u 5 * weights_oscillating u 4)"
    by blast
  have p5: "weights_oscillating u 5 = - 1"
    unfolding o by (rule polarity_at(3)) simp_all
  have p4: "weights_oscillating u 4 = 1"
    unfolding o using polarity_at(1) [of 2] by simp
  have "0 < draw u j" "draw u j < 1"
    using rand_example_draw [OF d(5)] draw_bounds(2) by simp_all
  then show "- (1 / 25) < weights (init_connection 0 4 5 u) 0 4 5
      \<and> weights (init_connection 0 4 5 u) 0 4 5 < 0"
    by (simp add: j d p5 p4)
qed simp_all

text \<open>The three stages of the training example.\<close>

lemma bidirectional_trained_weight:
  "weights bidirectional_trained 0 4 5 = weights bidirectional_network 0 4 5 + 1 / 20"
proof -
  define s2 where "s2 = calculate_output (\<lambda>_. 0) bidirectional_network"
  define s3 where "s3 = calculate_learning (\<lambda>_. 1) s2"
  note f2 = output_frame_fields [OF output_frame_calculate_output [of "\<lambda>_. 0" bidirectional_network]]
  note f3 = learning_frame_fields [OF calculate_learning_frame [of "\<lambda>_. 1" s2]]
  have a2: "neuron_output s2 0 4 = 1 / 2" "neuron_input s2 0 5 = 1 / 2"
    unfolding s2_def
    by (rule forward_from_zero; simp add: bidirectional_network_fields)+
  have d2: "size_input s2 = 2" "size_output s2 = 1" "total_neurons s2 = 4"
    "config_flags s2 10 = 1" "learning_rate s2 = 4 / 5"
    "weights_oscillating s2 4 = 1" "weights s2 = weights bidirectional_network"
    by (simp_all add: s2_def f2 bidirectional_network_fields)
  have e3: "error_delta s3 0 4 0 = 1 / 2" "error_delta s3 0 4 1 = 0"
    unfolding s3_def
    by (simp_all add: calculate_learning_delta error_delta_learning_output d2 a2 Let_def
        error_excitatory_def error_inhibitory_def)
  have d3: "size_input s3 = 2" "size_output s3 = 1" "total_neurons s3 = 4"
    "config_flags s3 10 = 1" "learning_rate s3 = 4 / 5"
    "weights_oscillating s3 4 = 1" "weights s3 = weights bidirectional_network"
    "neuron_output s3 0 4 = 1 / 2" "neuron_input s3 0 5 = 1 / 2"
    by (simp_all add: s3_def f3 d2 a2)
  have nz: "weights bidirectional_network 0 4 5 \<noteq> 0"
    using bidirectional_network_weight by simp
  have "weights (calculate_weight s3) 0 4 5 = weights (update_connection 0 4 5 s3) 0 4 5"
    by (simp add: calculate_weight_weights set_connections d3)
  also have "\<dots> = weights bidirectional_network 0 4 5 + 1 / 20"
    using nz by (simp add: update_connection_def Let_def weights_set_weight d3 e3)
  finally show ?thesis
    by (simp add: bidirectional_trained_def calculate_network_def s3_def s2_def)
qed

lemma bidirectional_trained_polarity:
  "weights_oscillating bidirectional_trained 5 * weights_oscillating bidirectional_trained 4 = - 1"
proof -
  have "weights_oscillating bidirectional_trained = weights_oscillating bidirectional_network"
    unfolding bidirectional_trained_def calculate_network_def
    by (simp add: only_weights_fields [OF only_weights_calculate_weight]
        learning_frame_fields [OF calculate_learning_frame]
        output_frame_fields [OF output_frame_calculate_output])
  then show ?thesis by (simp add: bidirectional_network_fields)
qed

section \<open>The sigmoid in double arithmetic: rounding, range and saturation\<close>

text \<open>
  Rounding moves a number no further than the next point of its grid, so it never crosses
  a number that is on the grid: 0, 1 and the powers of two. This gives the range. The
  saturation rests on the spacing of the doubles at 1, which is \<open>2 powi (- 52)\<close>: a sum
  \<open>1 + z\<close> with \<open>z\<close> below half of it rounds to 1.
\<close>

lemma nearest_even_bounds: "\<lfloor>q\<rfloor> \<le> nearest_even q" "nearest_even q \<le> \<lceil>q\<rceil>"
  unfolding nearest_even_def Let_def
  by (auto simp add: ceiling_altdef)

lemma nearest_even_ge: "of_int k \<le> q \<Longrightarrow> k \<le> nearest_even q"
  using nearest_even_bounds(1) [of q] by linarith

lemma nearest_even_le: "q \<le> of_int k \<Longrightarrow> nearest_even q \<le> k"
  using nearest_even_bounds(2) [of q] by linarith

lemma nearest_even_int: "nearest_even (of_int k) = k"
  by (simp add: nearest_even_def)

lemma nearest_even_below_half:
  assumes "0 \<le> d" and "d < 1 / 2"
  shows "nearest_even (of_int k + d) = k"
proof -
  have "\<lfloor>of_int k + d\<rfloor> = k" using assms by (simp add: floor_eq_iff)
  then show ?thesis using assms by (simp add: nearest_even_def)
qed

lemma ulp_pos: "0 < ulp x"
  by (simp add: ulp_def)

lemma floor_log_bounds:
  assumes "0 < x"
  shows "2 powi \<lfloor>log 2 x\<rfloor> \<le> x" "x < 2 powi (\<lfloor>log 2 x\<rfloor> + 1)"
proof -
  have "2 powr (of_int \<lfloor>log 2 x\<rfloor>) \<le> x \<and> x < 2 powr (of_int (\<lfloor>log 2 x\<rfloor> + 1))"
    using floor_log_eq_powr_iff [of x 2 "\<lfloor>log 2 x\<rfloor>"] assms by simp
  then show "2 powi \<lfloor>log 2 x\<rfloor> \<le> x" "x < 2 powi (\<lfloor>log 2 x\<rfloor> + 1)"
    by (simp_all only: powr_real_of_int' [of 2, simplified])
qed

lemma floor_log_eq:
  assumes "2 powi e \<le> x" and "x < 2 powi (e + 1)"
  shows "\<lfloor>log 2 x\<rfloor> = e"
proof -
  have "0 < (2::real) powi e" by simp
  with assms(1) have p: "0 < x" by linarith
  have "2 powr (of_int e) \<le> x \<and> x < 2 powr (of_int (e + 1))"
    using assms by (simp only: powr_real_of_int' [of 2, simplified])
  then show ?thesis
    using floor_log_eq_powr_iff [of x 2 e] p by simp
qed

lemma powi_le_iff: "(2::real) powi a \<le> 2 powi b \<longleftrightarrow> a \<le> b"
  by (metis power_int_increasing one_le_numeral one_less_numeral_iff semiring_norm(76)
      power_int_strict_increasing not_less)

text \<open>A power of two on the grid around \<open>x\<close>.\<close>

lemma on_grid:
  assumes "max \<lfloor>log 2 \<bar>x\<bar>\<rfloor> (- 1022) - 52 \<le> k"
  shows "2 powi k = of_int (2 ^ nat (k - (max \<lfloor>log 2 \<bar>x\<bar>\<rfloor> (- 1022) - 52))) * ulp x"
proof -
  define g where "g = max \<lfloor>log 2 \<bar>x\<bar>\<rfloor> (- 1022) - 52"
  have "(2::real) powi k = 2 powi ((k - g) + g)" by simp
  also have "\<dots> = 2 powi (k - g) * 2 powi g" by (rule power_int_add) simp
  also have "(2::real) powi (k - g) = 2 ^ nat (k - g)"
    using assms by (simp add: g_def power_int_def)
  finally show ?thesis by (simp add: ulp_def g_def)
qed

lemma rounded_le_grid:
  assumes "x \<le> of_int m * ulp x"
  shows "rounded x \<le> of_int m * ulp x"
proof -
  have "x / ulp x \<le> of_int m" using assms ulp_pos [of x] by (simp add: pos_divide_le_eq)
  then have "nearest_even (x / ulp x) \<le> m" by (rule nearest_even_le)
  then have "(of_int (nearest_even (x / ulp x)) :: real) \<le> of_int m" by simp
  then show ?thesis
    unfolding rounded_def using ulp_pos [of x] by (simp add: mult_right_mono)
qed

lemma rounded_ge_grid:
  assumes "of_int m * ulp x \<le> x"
  shows "of_int m * ulp x \<le> rounded x"
proof -
  have "of_int m \<le> x / ulp x" using assms ulp_pos [of x] by (simp add: pos_le_divide_eq)
  then have "m \<le> nearest_even (x / ulp x)" by (rule nearest_even_ge)
  then have "(of_int m :: real) \<le> of_int (nearest_even (x / ulp x))" by simp
  then show ?thesis
    unfolding rounded_def using ulp_pos [of x] by (simp add: mult_right_mono)
qed

lemma rounded_nonneg: "0 \<le> x \<Longrightarrow> 0 \<le> rounded x"
  using rounded_ge_grid [of 0 x] by simp

lemma rounded_le_power:
  assumes "0 < x" and "x \<le> 2 powi k" and "- 1022 \<le> k"
  shows "rounded x \<le> 2 powi k"
proof -
  have "2 powi \<lfloor>log 2 x\<rfloor> \<le> (2::real) powi k"
    using floor_log_bounds(1) [OF assms(1)] assms(2) by linarith
  then have "\<lfloor>log 2 x\<rfloor> \<le> k" by (simp only: powi_le_iff)
  then have "max \<lfloor>log 2 \<bar>x\<bar>\<rfloor> (- 1022) - 52 \<le> k" using assms(1,3) by simp
  then obtain m where m: "2 powi k = of_int m * ulp x" using on_grid by blast
  show ?thesis using rounded_le_grid [of x m] assms(2) by (simp only: m)
qed

lemma rounded_ge_power:
  assumes "2 powi k \<le> x" and "- 1074 \<le> k"
  shows "2 powi k \<le> rounded x"
proof -
  have "0 < (2::real) powi k" by simp
  with assms(1) have p: "0 < x" by linarith
  define e where "e = \<lfloor>log 2 x\<rfloor>"
  have "(2::real) powi k < 2 powi (e + 1)"
    using floor_log_bounds(2) [OF p] assms(1) unfolding e_def by linarith
  then have ke: "k \<le> e"
    by (metis powi_le_iff not_less zless_add1_eq order_le_less)
  show ?thesis
  proof (cases "- 1022 \<le> e")
    case True
    then have "max \<lfloor>log 2 \<bar>x\<bar>\<rfloor> (- 1022) - 52 \<le> e" using p by (simp add: e_def)
    then obtain m where m: "2 powi e = of_int m * ulp x" using on_grid by blast
    have "2 powi e \<le> x" using floor_log_bounds(1) [OF p] by (simp add: e_def)
    then have "2 powi e \<le> rounded x" using rounded_ge_grid [of m x] by (simp only: m)
    moreover have "(2::real) powi k \<le> 2 powi e" using ke by (simp only: powi_le_iff)
    ultimately show ?thesis by linarith
  next
    case False
    then have "max \<lfloor>log 2 \<bar>x\<bar>\<rfloor> (- 1022) - 52 \<le> k" using p assms(2) by (simp add: e_def)
    then obtain m where m: "2 powi k = of_int m * ulp x" using on_grid by blast
    show ?thesis using rounded_ge_grid [of m x] assms(1) by (simp only: m)
  qed
qed

lemma to_double_positive:
  assumes "0 < r"
  shows "to_double r = PosInf \<or> (\<exists>v. to_double r = Finite v \<and> 0 \<le> v)"
  using assms rounded_nonneg [of r] by (simp add: to_double_def)

lemma to_double_ge_one:
  assumes "1 \<le> r"
  shows "to_double r = PosInf \<or> (\<exists>w. to_double r = Finite w \<and> 1 \<le> w)"
  using assms rounded_ge_power [of 0 r] by (simp add: to_double_def)

lemma to_double_le_power:
  assumes "0 < r" and "r \<le> 2 powi k" and "- 1022 \<le> k" and "k < 1024"
  shows "\<exists>z. to_double r = Finite z \<and> 0 \<le> z \<and> z \<le> 2 powi k"
proof -
  have a: "rounded r \<le> 2 powi k" using assms(1-3) by (rule rounded_le_power)
  have b: "0 \<le> rounded r" using assms(1) by (simp add: rounded_nonneg)
  have "(2::real) powi k < 2 powi 1024"
    using assms(4) by (intro power_int_strict_increasing) simp_all
  then have "\<not> 2 powi 1024 \<le> \<bar>rounded r\<bar>" using a b by linarith
  then show ?thesis using assms(1) a b by (simp add: to_double_def)
qed

lemma to_double_overflow:
  assumes "2 powi 1024 \<le> r"
  shows "to_double r = PosInf"
proof -
  have "0 < (2::real) powi 1024" by simp
  with assms have p: "0 < r" by linarith
  have "2 powi 1024 \<le> rounded r" using assms by (rule rounded_ge_power) simp
  then have "2 powi 1024 \<le> \<bar>rounded r\<bar>" by linarith
  then show ?thesis using p by (simp add: to_double_def)
qed

text \<open>A number with a 53-bit significand and an exponent in range is a double.\<close>

lemma to_double_exact:
  assumes "x = of_int m * 2 powi (e - 52)"
    and "2 ^ 52 \<le> \<bar>m\<bar>" and "\<bar>m\<bar> < 2 ^ 53" and "- 1022 \<le> e" and "e \<le> 1023"
  shows "to_double x = Finite x"
proof -
  have s: "(2::real) powi e = 2 ^ 52 * 2 powi (e - 52)"
    "(2::real) powi (e + 1) = 2 ^ 53 * 2 powi (e - 52)"
    by (simp_all add: power_int_diff power_int_add)
  have ax: "\<bar>x\<bar> = of_int \<bar>m\<bar> * 2 powi (e - 52)"
    by (simp add: assms(1) abs_mult)
  have "(2::real) ^ 52 \<le> of_int \<bar>m\<bar>" "of_int \<bar>m\<bar> < (2::real) ^ 53"
    using assms(2,3) by (metis of_int_le_iff of_int_numeral of_int_power, metis of_int_less_iff of_int_numeral of_int_power)
  then have b: "2 powi e \<le> \<bar>x\<bar>" "\<bar>x\<bar> < 2 powi (e + 1)"
    unfolding s ax by (simp_all add: mult_right_mono mult_strict_right_mono)
  then have "\<lfloor>log 2 \<bar>x\<bar>\<rfloor> = e" by (rule floor_log_eq)
  then have u: "ulp x = 2 powi (e - 52)" using assms(4) by (simp add: ulp_def)
  have "x / ulp x = of_int m" unfolding u by (simp add: assms(1))
  then have "rounded x = of_int m * ulp x" by (simp add: rounded_def nearest_even_int)
  also have "\<dots> = x" unfolding u by (simp only: assms(1))
  finally have r: "rounded x = x" .
  have "(2::real) powi (e + 1) \<le> 2 powi 1024"
    using assms(5) by (intro power_int_increasing) simp_all
  then have "\<not> 2 powi 1024 \<le> \<bar>x\<bar>" using b(2) by linarith
  then show ?thesis by (simp add: to_double_def r)
qed

lemma to_double_near_one:
  assumes "0 \<le> v" and "v < 2 powi (- 53)"
  shows "to_double (1 + v) = Finite 1"
proof -
  have "v < 1" using assms(2) by (simp add: power_int_minus) 
  then have "\<lfloor>log 2 (1 + v)\<rfloor> = 0"
    using assms(1) by (intro floor_log_eq) simp_all
  then have u: "ulp (1 + v) = 2 powi (- 52)" using assms(1) by (simp add: ulp_def)
  have q: "(1 + v) / 2 powi (- 52) = of_int (2 ^ 52) + v * 2 ^ 52"
    by (simp add: power_int_minus field_simps)
  have "v * 2 ^ 52 < 1 / 2" using assms(2) by (simp add: power_int_minus field_simps)
  then have "nearest_even ((1 + v) / 2 powi (- 52)) = 2 ^ 52"
    unfolding q using assms(1) by (intro nearest_even_below_half) simp_all
  then have "rounded (1 + v) = 1" by (simp add: rounded_def u power_int_minus)
  then show ?thesis using assms(1) by (simp add: to_double_def)
qed


lemma one_plus_tiny:
  assumes "0 \<le> z" and "z < 2 powi (- 53)"
  shows "double_div (Finite 1) (double_add (Finite 1) (Finite z)) = Finite 1"
proof -
  have "to_double (1 + z) = Finite 1" using assms by (rule to_double_near_one)
  moreover have "to_double 1 = Finite 1" using to_double_near_one [of 0] by simp
  ultimately show ?thesis by simp
qed

lemma to_double_not_NaN: "to_double r \<noteq> NaN"
  by (simp add: to_double_def)

lemma double_exp_range:
  assumes "t \<noteq> NaN"
  shows "double_exp t = PosInf \<or> (\<exists>v. double_exp t = Finite v \<and> 0 \<le> v)"
proof (cases t)
  case (Finite x)
  then show ?thesis using to_double_positive [of "exp x"] by simp
qed (use assms in simp_all)

lemma one_plus_range:
  assumes "t = PosInf \<or> (\<exists>v. t = Finite v \<and> 0 \<le> v)"
  shows "double_add (Finite 1) t = PosInf
    \<or> (\<exists>w. double_add (Finite 1) t = Finite w \<and> 1 \<le> w)"
proof -
  have "to_double (1 + v) = PosInf \<or> (\<exists>w. to_double (1 + v) = Finite w \<and> 1 \<le> w)"
    if "0 \<le> v" for v
    using that by (intro to_double_ge_one) simp
  with assms show ?thesis by (elim disjE exE conjE) simp_all
qed

lemma reciprocal_range:
  assumes "t = PosInf \<or> (\<exists>w. t = Finite w \<and> 1 \<le> w)"
  shows "\<exists>z. double_div (Finite 1) t = Finite z \<and> 0 \<le> z \<and> z \<le> 1"
proof -
  have "\<exists>z. to_double (1 / w) = Finite z \<and> 0 \<le> z \<and> z \<le> 1" if "1 \<le> w" for w
    using that to_double_le_power [of "1 / w" 0] by simp
  with assms show ?thesis by (elim disjE exE conjE) simp_all
qed

lemma sigmoid_argument_not_NaN:
  assumes "0 < sigmoid_steepness s"
  shows "double_div (double_mult (Finite (- 2)) (Finite x)) (Finite (sigmoid_steepness s)) \<noteq> NaN"
proof (cases "to_double (- 2 * x)")
  case (Finite y)
  then show ?thesis using assms by (simp add: to_double_not_NaN)
qed (use assms in \<open>simp_all add: to_double_not_NaN\<close>)

lemma sigmoid_double_range:
  assumes "0 < sigmoid_steepness s"
  shows "\<exists>v. sigmoid_double s x = Finite v \<and> 0 \<le> v \<and> v \<le> 1"
  unfolding sigmoid_double_def
  by (intro reciprocal_range one_plus_range double_exp_range sigmoid_argument_not_NaN assms)

lemma exp_40: "exp (- 40 :: real) \<le> 2 powi (- 54)"
proof -
  have "(13 / 8 :: real) \<le> exp (1 / 2)"
    using exp_lower_Taylor_quadratic [of "1 / 2 :: real"] by (simp add: power2_eq_square)
  then have "(13 / 8 :: real) ^ 80 \<le> exp (1 / 2) ^ 80" by (intro power_mono) simp_all
  also have "exp (1 / 2 :: real) ^ 80 = exp 40"
    using exp_of_nat_mult [of 80 "1 / 2 :: real"] by simp
  finally have "(13 / 8 :: real) ^ 80 \<le> exp 40" .
  moreover have "(2::real) ^ 54 \<le> (13 / 8) ^ 80" by (simp add: power_divide)
  ultimately have "(2::real) ^ 54 \<le> exp 40" by (rule order_trans [rotated])
  then have "inverse (exp (40 :: real)) \<le> inverse (2 ^ 54)"
    by (intro le_imp_inverse_le) simp_all
  then show ?thesis by (simp add: exp_minus power_int_minus)
qed

text \<open>
  Saturation at the upper end: once the quotient \<open>-2 * 8 / steepness\<close> rounds to \<open>-40\<close>,
  the exponential is below half the spacing of the doubles at 1.
\<close>

lemma sigmoid_double_saturates_high:
  assumes "sigmoid_steepness s \<noteq> 0"
    and "to_double (- 16 / sigmoid_steepness s) = Finite (- 40)"
  shows "sigmoid_double s 8 = Finite 1"
proof -
  have a: "to_double (- 16) = Finite (- 16)"
    by (rule to_double_exact [where m = "- (2 ^ 52)" and e = 4]) simp_all
  obtain z where z: "to_double (exp (- 40)) = Finite z" "0 \<le> z" "z \<le> 2 powi (- 54)"
    using to_double_le_power [of "exp (- 40)" "- 54"] exp_40 by auto
  have "z < 2 powi (- 53)" using z(3) by (simp add: power_int_minus)
  with z(2) have c: "double_div (Finite 1) (double_add (Finite 1) (Finite z)) = Finite 1"
    by (rule one_plus_tiny)
  have b: "to_double (- (16 / sigmoid_steepness s)) = Finite (- 40)"
    using assms(2) by simp
  show ?thesis
    unfolding sigmoid_double_def using c by (simp add: assms(1) a b z(1))
qed

lemma quotient_default: "to_double (- 16 / (2 / 5)) = Finite (- 40)"
proof -
  have "to_double (- 40) = Finite (- 40)"
    by (rule to_double_exact [where m = "- (5 * 2 ^ 50)" and e = 5]) simp_all
  then show ?thesis by simp
qed

text \<open>The double nearest to the default steepness 0.4, and the quotient with it.\<close>

lemma steepness_double: "to_double (2 / 5) = Finite (3602879701896397 / 2 ^ 53)"
proof -
  have "\<lfloor>log 2 (2 / 5 :: real)\<rfloor> = - 2"
    by (rule floor_log_eq) (simp_all add: power_int_minus)
  then have u: "ulp (2 / 5) = 2 powi (- 54)" by (simp add: ulp_def)
  have "(2 / 5 :: real) / 2 powi (- 54) = of_int 7205759403792793 + 3 / 5"
    by (simp add: power_int_minus)
  moreover have "nearest_even (of_int 7205759403792793 + 3 / 5) = 7205759403792794"
    by (simp add: nearest_even_def floor_eq_iff)
  ultimately have "rounded (2 / 5) = 7205759403792794 * 2 powi (- 54)"
    by (simp add: rounded_def u)
  then show ?thesis by (simp add: to_double_def power_int_minus)
qed

lemma quotient_double: "to_double (- 16 / (3602879701896397 / 2 ^ 53)) = Finite (- 40)"
proof -
  define x :: real where "x = - 16 / (3602879701896397 / 2 ^ 53)"
  have "\<lfloor>log 2 \<bar>x\<bar>\<rfloor> = 5"
    by (rule floor_log_eq) (simp_all add: x_def)
  then have u: "ulp x = 2 powi (- 47)" by (simp add: ulp_def)
  have "x / 2 powi (- 47) = of_int (- 5629499534213120) + 1125899906842624 / 3602879701896397"
    by (simp add: x_def power_int_minus)
  moreover have "nearest_even (of_int (- 5629499534213120) + 1125899906842624 / 3602879701896397)
      = - 5629499534213120"
    by (rule nearest_even_below_half) simp_all
  ultimately have "rounded x = - 5629499534213120 * 2 powi (- 47)"
    by (simp add: rounded_def u)
  then have "rounded x = - 40" by (simp add: power_int_minus)
  then show ?thesis unfolding x_def [symmetric] by (simp add: to_double_def x_def)
qed

text \<open>
  Saturation at the lower end: for a steepness up to 1 the quotient \<open>-2 * (-512) / steepness\<close>
  is at least 1024, and the exponential overflows.
\<close>

lemma exp_1024: "2 powi 1024 \<le> exp (1024 :: real)"
proof -
  have "(2 :: real) \<le> exp 1"
    using exp_ge_add_one_self [of "1 :: real"] by simp
  then have "(2 :: real) ^ 1024 \<le> exp 1 ^ 1024" by (intro power_mono) simp_all
  also have "exp (1 :: real) ^ 1024 = exp 1024"
    using exp_of_nat_mult [of 1024 "1 :: real"] by simp
  finally show ?thesis by simp
qed

lemma sigmoid_double_saturates_low:
  assumes "0 < sigmoid_steepness s" and "sigmoid_steepness s \<le> 1"
  shows "sigmoid_double s (- 512) = Finite 0"
proof -
  define q where "q = 1024 / sigmoid_steepness s"
  have a: "to_double 1024 = Finite 1024"
    by (rule to_double_exact [where m = "2 ^ 52" and e = 10]) simp_all
  have q: "2 powi 10 \<le> q"
    using assms by (simp add: q_def pos_le_divide_eq)
  then have r: "2 powi 10 \<le> rounded q" by (rule rounded_ge_power) simp
  have "double_exp (to_double q) = PosInf"
  proof (cases "to_double q = PosInf")
    case True
    then show ?thesis by simp
  next
    case False
    then have f: "to_double q = Finite (rounded q)"
      using q by (simp add: to_double_def split: if_splits)
    have "exp 1024 \<le> exp (rounded q)" using r by simp
    then have "2 powi 1024 \<le> exp (rounded q)" using exp_1024 by linarith
    then show ?thesis by (simp add: f to_double_overflow)
  qed
  then show ?thesis
    using assms(1) by (simp add: sigmoid_double_def a q_def)
qed

section \<open>The claims\<close>

text \<open>
  C1. After \<^verbatim>\<open>init_network\<close> with the loop-cutting flag set (and a non-negative
  \<open>size_input\<close>), for every sub-network and every ordered pair of distinct hidden neurons
  other than the output neuron (target \<open>c\<close> and source \<open>k\<close> in
  \<open>size_input + 3 .. total_neurons + 1\<close>): if the target is not in the second hidden layer
  (\<open>c \<le> total_neurons + 1 - size_hidden2\<close>) the weight from \<open>k\<close> to \<open>c\<close> is 0; so without
  a second hidden layer the weight is 0 in both directions. (A target in the second hidden
  layer gets a fresh random weight from the statement that follows the loop cutting.)
\<close>

theorem loop_cutting_outside_second_layer:
  fixes ii io ih ih2 :: int and s :: ed_state
  defines "s' \<equiv> init_network ii io ih ih2 s"
  assumes "config_flags s' 6 = 1" and "0 \<le> size_input s'"
    and "0 \<le> n" and "n < size_output s'"
    and "size_input s' + 3 \<le> c" and "c \<le> total_neurons s' + 1"
    and "size_input s' + 3 \<le> k" and "k \<le> total_neurons s' + 1"
    and "c \<noteq> k"
  shows "(c \<le> total_neurons s' + 1 - size_hidden2 s' \<longrightarrow> weights s' n c k = 0)
       \<and> (size_hidden2 s' \<le> 0 \<longrightarrow> weights s' n c k = 0 \<and> weights s' n k c = 0)"
proof -
  have f: "config_flags s 6 = 1" "0 \<le> ii" "n < io"
    "ii + 3 \<le> c" "c \<le> ii + 1 + (ih + ih2) + 1"
    "ii + 3 \<le> k" "k \<le> ii + 1 + (ih + ih2) + 1"
    using assms by (simp_all add: init_network_fields)
  have "weights s' n c k = 0" if "c \<le> total_neurons s' + 1 - size_hidden2 s'"
    unfolding s'_def
    by (rule init_network_cut)
       (use f that assms(4,10) in \<open>simp_all add: s'_def init_network_fields\<close>)
  moreover have "weights s' n k c = 0" if "size_hidden2 s' \<le> 0"
    unfolding s'_def
    by (rule init_network_cut)
       (use f that assms(4,10) in \<open>simp_all add: s'_def init_network_fields\<close>)
  ultimately show ?thesis
    using f by (auto simp add: s'_def init_network_fields)
qed

theorem loop_cutting_outside_second_layer_witness:
  "weights default_network 0 11 12 = 0 \<and> weights default_network 0 12 11 = 0"
  using loop_cutting_outside_second_layer [of 8 1 8 0 default_parameters 0 11 12]
  by (simp add: default_network_def [symmetric] default_network_fields)

theorem loop_cutting_second_layer_counterexample:
  "config_flags second_layer_network 6 = 1
   \<and> 0 < size_hidden2 second_layer_network
   \<and> 0 < size_output second_layer_network
   \<and> size_input second_layer_network + 3 \<le> 5
   \<and> 6 \<le> total_neurons second_layer_network + 1
   \<and> weights second_layer_network 0 6 5 \<noteq> 0"
  using second_layer_network_weight
  by (simp add: second_layer_network_def init_network_fields default_parameters_fields)

text \<open>
  C2. One call of \<^verbatim>\<open>calculate_weight\<close> does not depend on the order in which the
  (sub-network, target, source) triples are visited: running the loop body over any
  permutation of the triples gives the state \<^verbatim>\<open>calculate_weight\<close> gives, and each weight
  of the result is the body applied to the state before the call, at that triple alone.
\<close>

theorem calculate_weight_order_independent:
  assumes "mset ps = mset (connections s)"
  shows "fold update_at ps s = calculate_weight s
    \<and> weights (calculate_weight s) n c k =
          (if (n, c, k) \<in> set (connections s) then weights (update_connection n c k s) n c k
           else weights s n c k)"
proof -
  have "fold update_at (connections s) = fold update_at ps"
    by (rule fold_multiset_equiv) (simp_all add: update_at_commute assms)
  then have "fold update_at ps s = calculate_weight s"
    by (simp add: calculate_weight_flat)
  then show ?thesis by (simp add: calculate_weight_weights)
qed

theorem calculate_weight_order_independent_witness:
  "fold update_at (rev (connections default_diffused)) default_diffused
     = calculate_weight default_diffused
   \<and> weights (calculate_weight default_diffused) 0 10 11
     = weights (update_connection 0 10 11 default_diffused) 0 10 11"
  using calculate_weight_order_independent
    [of "rev (connections default_diffused)" default_diffused 0 10 11]
  by (simp add: set_connections default_diffused_fields)

text \<open>
  C3. For every sub-network and every (target, source) pair, at every state of a training
  run in selective mode (flag 10 not 1) that starts from the zeroed arrays with
  non-negative weight and threshold ranges, learning rate, error amplification and bias
  and a nonzero sigmoid steepness, and whose input patterns are non-negative, the weight
  is either exactly 0 or its sign is \<open>polarity[source] * polarity[target]\<close>.
\<close>

theorem weight_sign_in_selective_training:
  assumes "selective_training s"
  shows "weights s n c k = 0
    \<or> signage (weights s n c k) = weights_oscillating s k * weights_oscillating s c"
proof -
  from assms have i: "sign_invariant s" by (rule selective_training_invariant)
  then obtain m where m: "0 \<le> m"
    "weights s n c k = m * (weights_oscillating s k * weights_oscillating s c)"
    unfolding sign_invariant_def by blast
  from i have "weights_oscillating s k \<in> {- 1, 0, 1}" "weights_oscillating s c \<in> {- 1, 0, 1}"
    unfolding sign_invariant_def by blast+
  with m(1) show ?thesis
    unfolding m(2) by (rule sign_of_product)
qed

theorem weight_sign_in_selective_training_witness:
  "selective_training (calculate_weight default_diffused)
   \<and> (weights (calculate_weight default_diffused) 0 10 11 = 0
      \<or> signage (weights (calculate_weight default_diffused) 0 10 11)
          = weights_oscillating (calculate_weight default_diffused) 11
            * weights_oscillating (calculate_weight default_diffused) 10)"
proof -
  have "selective_training default_network"
    unfolding default_network_def
    by (rule selective_training.initialised)
       (simp_all add: zero_initialised_def default_parameters_fields)
  then have "selective_training (calculate_weight default_diffused)"
    unfolding default_diffused_def
    by (intro selective_training.update selective_training.diffuse selective_training.forward)
       simp_all
  then show ?thesis
    using weight_sign_in_selective_training [of "calculate_weight default_diffused" 0 10 11]
    by blast
qed

theorem weight_sign_bidirectional_counterexample:
  "zero_initialised bidirectional_parameters
   \<and> 0 \<le> init_range_weight bidirectional_parameters
   \<and> 0 \<le> init_range_threshold bidirectional_parameters
   \<and> weights bidirectional_trained 0 4 5 \<noteq> 0
   \<and> signage (weights bidirectional_trained 0 4 5)
       \<noteq> weights_oscillating bidirectional_trained 5 * weights_oscillating bidirectional_trained 4"
proof -
  have "0 < weights bidirectional_trained 0 4 5"
    using bidirectional_network_weight by (simp add: bidirectional_trained_weight)
  then show ?thesis
    by (simp add: signage_def bidirectional_trained_polarity zero_initialised_def
        bidirectional_parameters_fields)
qed

text \<open>
  C4. \<^verbatim>\<open>calculate_weight\<close> never modifies a weight that is exactly 0, and neither do the
  forward pass and the error diffusion, which store no weight: a connection whose weight
  is 0 before a training step has weight 0 after it.
\<close>

theorem zero_weight_stays_zero:
  assumes "weights s n c k = 0"
  shows "weights (calculate_weight s) n c k = 0
    \<and> weights (calculate_network inp tgt s) n c k = 0"
  using assms
  by (simp add: calculate_weight_weights update_connection_zero calculate_network_def
      weights_calculate_output weights_calculate_learning)

theorem zero_weight_stays_zero_witness:
  "weights default_network 0 11 12 = 0
   \<and> weights (calculate_weight default_network) 0 11 12 = 0
   \<and> weights (calculate_network (\<lambda>_. 1) (\<lambda>_. 0) default_network) 0 11 12 = 0"
  using zero_weight_stays_zero [OF default_network_cut, of "\<lambda>_. 1" "\<lambda>_. 0"] default_network_cut
  by simp

text \<open>
  C5. In selective mode (flag 10 not 1), one update adds to every nonzero weight
  \<open>w[c][k]\<close> of the network exactly \<open>delta * error * polarity[k] * polarity[c]\<close>, where
  \<open>error\<close> is the excitatory channel of the target when \<open>polarity[k] > 0\<close> and the
  inhibitory one otherwise, and
  \<open>delta = learning_rate * neuron_input[k] * |neuron_output[c]| * (1 - |neuron_output[c]|)\<close>.
\<close>

theorem calculate_weight_selective:
  assumes "config_flags s 10 \<noteq> 1"
    and "weights s n c k \<noteq> 0"
    and "0 \<le> n" and "n < size_output s"
    and "size_input s + 2 \<le> c" and "c \<le> total_neurons s + 1"
    and "0 \<le> k" and "k \<le> total_neurons s + 1"
  shows "weights (calculate_weight s) n c k =
     weights s n c k +
       (learning_rate s * neuron_input s n k * \<bar>neuron_output s n c\<bar> * (1 - \<bar>neuron_output s n c\<bar>))
       * (if weights_oscillating s k > 0 then error_delta s n c 0 else error_delta s n c 1)
       * weights_oscillating s k * weights_oscillating s c"
  using assms
  by (simp add: calculate_weight_weights set_connections update_connection_def Let_def
      weights_set_weight)

theorem calculate_weight_selective_witness:
  "config_flags default_diffused 10 \<noteq> 1
   \<and> weights default_diffused 0 10 11 \<noteq> 0
   \<and> weights (calculate_weight default_diffused) 0 10 11 =
     weights default_diffused 0 10 11 +
       (learning_rate default_diffused * neuron_input default_diffused 0 11
          * \<bar>neuron_output default_diffused 0 10\<bar> * (1 - \<bar>neuron_output default_diffused 0 10\<bar>))
       * (if weights_oscillating default_diffused 11 > 0 then error_delta default_diffused 0 10 0
          else error_delta default_diffused 0 10 1)
       * weights_oscillating default_diffused 11 * weights_oscillating default_diffused 10"
proof -
  have a: "config_flags default_diffused 10 \<noteq> 1" by (simp add: default_diffused_fields)
  have b: "weights default_diffused 0 10 11 \<noteq> 0"
    using default_network_nonzero by (simp add: default_diffused_fields)
  show ?thesis
    using calculate_weight_selective [OF a b] a b by (simp add: default_diffused_fields)
qed

text \<open>
  C6. After \<^verbatim>\<open>calculate_learning\<close>, for each sub-network the two channels stored at the
  output neuron's slot (index \<open>size_input + 2\<close>) have product 0 and difference
  \<open>target - output\<close>, where \<open>output\<close> is the activation the forward pass left in that slot
  before the call, and both are non-negative. The call itself changes neither
  \<open>neuron_output\<close> nor \<open>size_input\<close>, so the same holds of the output read after it.
\<close>

theorem error_split_complete:
  assumes "0 \<le> n" and "n < size_output s"
  shows "(let s' = calculate_learning tgt s;
              out = size_input s + 2;
              excitatory = error_delta s' n out 0;
              inhibitory = error_delta s' n out 1
          in excitatory * inhibitory = 0
             \<and> excitatory - inhibitory = tgt n - neuron_output s n out
             \<and> 0 \<le> excitatory \<and> 0 \<le> inhibitory
             \<and> neuron_output s' = neuron_output s \<and> size_input s' = size_input s)"
  using assms
  by (simp add: Let_def calculate_learning_delta error_delta_learning_output
      learning_frame_fields [OF calculate_learning_frame]
      error_excitatory_def error_inhibitory_def)

theorem error_split_complete_witness:
  "(let s' = calculate_learning (\<lambda>_. 1) default_forward;
        out = size_input default_forward + 2;
        excitatory = error_delta s' 0 out 0;
        inhibitory = error_delta s' 0 out 1
    in excitatory * inhibitory = 0
       \<and> excitatory - inhibitory = 1 - neuron_output default_forward 0 out
       \<and> 0 \<le> excitatory \<and> 0 \<le> inhibitory
       \<and> neuron_output s' = neuron_output default_forward
       \<and> size_input s' = size_input default_forward)"
  using error_split_complete [of 0 default_forward "\<lambda>_. 1"]
  by (simp add: default_forward_fields)

text \<open>
  C7. After \<^verbatim>\<open>calculate_learning\<close>, for each sub-network every hidden neuron slot
  (indices \<open>size_input + 3\<close> through \<open>total_neurons + 1\<close>) holds the output neuron's
  channel pair multiplied componentwise by \<open>error_amplification\<close>, and the output neuron's
  own slot holds the unamplified pair of the split error.
\<close>

theorem broadcast_uniform:
  assumes "0 \<le> n" and "n < size_output s"
    and "size_input s + 3 \<le> c" and "c \<le> total_neurons s + 1"
  shows "(let s' = calculate_learning tgt s;
              out = size_input s + 2;
              e = tgt n - neuron_output s n out
          in error_delta s' n c 0 = error_delta s' n out 0 * error_amplification s
             \<and> error_delta s' n c 1 = error_delta s' n out 1 * error_amplification s
             \<and> error_delta s' n out 0 = error_excitatory e
             \<and> error_delta s' n out 1 = error_inhibitory e)"
  using assms
  by (simp add: Let_def calculate_learning_delta error_delta_learning_output)

theorem broadcast_uniform_witness:
  "(let s' = calculate_learning (\<lambda>_. 1) default_forward;
        out = size_input default_forward + 2;
        e = 1 - neuron_output default_forward 0 out
    in error_delta s' 0 14 0 = error_delta s' 0 out 0 * error_amplification default_forward
       \<and> error_delta s' 0 14 1 = error_delta s' 0 out 1 * error_amplification default_forward
       \<and> error_delta s' 0 out 0 = error_excitatory e
       \<and> error_delta s' 0 out 1 = error_inhibitory e)"
  using broadcast_uniform [of 0 default_forward 14 "\<lambda>_. 1"]
  by (simp add: default_forward_fields)

text \<open>
  C8. \<^verbatim>\<open>init_network\<close> has no validation. For every configuration within the capacity
  of the arrays, structurally valid or not (an odd \<open>size_input\<close>, a negative hidden or
  output count, a second layer larger than the hidden count), it stores the dimensions
  exactly as passed, derives \<open>size_hidden\<close> and \<open>total_neurons\<close> from them without
  clamping and resets both error counters; the indices its loops then run through, from
  0 and from \<open>size_input + 2\<close> up to \<open>total_neurons + 1\<close> for the sub-networks below
  \<open>size_output\<close>, lie inside the declared arrays.
\<close>

theorem init_network_stores_any_configuration:
  assumes "within_capacity ii io ih ih2"
  shows "size_input (init_network ii io ih ih2 s) = ii
   \<and> size_output (init_network ii io ih ih2 s) = io
   \<and> size_hidden (init_network ii io ih ih2 s) = ih + ih2
   \<and> size_hidden2 (init_network ii io ih ih2 s) = ih2
   \<and> total_neurons (init_network ii io ih ih2 s) = ii + 1 + (ih + ih2)
   \<and> error_count (init_network ii io ih ih2 s) = 0
   \<and> error_total (init_network ii io ih ih2 s) = 0
   \<and> 0 \<le> size_input (init_network ii io ih ih2 s) + 2
   \<and> size_input (init_network ii io ih ih2 s) + 2 \<le> MAX_NETWORK
   \<and> total_neurons (init_network ii io ih ih2 s) + 1 \<le> MAX_NETWORK
   \<and> size_output (init_network ii io ih ih2 s) - 1 \<le> MAX_OUTPUT"
  using assms by (simp add: init_network_fields within_capacity_def)

theorem init_network_stores_any_configuration_witness:
  "within_capacity 3 1 2 0 \<and> \<not> structurally_valid 3 1 2 0
   \<and> size_input odd_input_network = 3
   \<and> size_output odd_input_network = 1
   \<and> size_hidden odd_input_network = 2
   \<and> size_hidden2 odd_input_network = 0
   \<and> total_neurons odd_input_network = 6
   \<and> error_count odd_input_network = 0
   \<and> error_total odd_input_network = 0
   \<and> total_neurons odd_input_network + 1 \<le> MAX_NETWORK"
proof -
  have a: "within_capacity 3 1 2 0"
    by (simp add: within_capacity_def MAX_NETWORK_def MAX_OUTPUT_def)
  have b: "\<not> structurally_valid 3 1 2 0"
    by (simp add: structurally_valid_def signed_modulo_int_def)
  show ?thesis
    using init_network_stores_any_configuration [OF a, of default_parameters] a b
    by (simp add: odd_input_network_def)
qed

theorem init_network_accepts_odd_input_counterexample:
  "\<not> structurally_valid 3 1 2 0
   \<and> size_input odd_input_network = 3
   \<and> total_neurons odd_input_network = 6
   \<and> weights odd_input_network 0 5 6 \<noteq> 0
   \<and> odd_input_network \<noteq> default_parameters"
proof -
  have "\<not> structurally_valid 3 1 2 0"
    by (simp add: structurally_valid_def signed_modulo_int_def)
  moreover have "odd_input_network \<noteq> default_parameters"
    using odd_input_network_nonzero by (auto simp add: default_parameters_fields)
  ultimately show ?thesis
    using odd_input_network_nonzero
    by (simp add: odd_input_network_def init_network_fields)
qed

text \<open>
  C9. In double arithmetic, for every finite argument \<open>x\<close> and a steepness above 0,
  \<^verbatim>\<open>sigmoid\<close> returns a finite value of the closed interval from 0 to 1, never an
  infinity or NaN; the ends are reached (the function saturates), so the interval is not
  the open one. Every activation the forward pass stores in \<open>neuron_output\<close> is in the
  closed interval as well: a slot after \<^verbatim>\<open>calculate_output\<close> holds either what it held
  before or such a value, and with at least one timestep every slot of the hidden/output
  range of every sub-network holds such a value. For a value \<open>v\<close> of the closed interval
  \<open>|v| * (1 - |v|) = v * (1 - v)\<close>. (The forward pass is the one of the model, whose
  sums are exact; the bounds stated are the closed ones, which rounding preserves.)

  The ends are reached at the default steepness 0.4: \<open>sigmoid 8\<close> is exactly 1, since
  \<open>exp (- 40)\<close> is below half the spacing of the doubles at 1, and \<open>sigmoid (- 512)\<close> is
  exactly 0, since the exponential overflows to infinity. The machine holds the double
  nearest to 0.4 instead of 0.4; with that steepness \<open>sigmoid 8\<close> is exactly 1 as well.
\<close>

theorem sigmoid_closed_range:
  assumes "0 < sigmoid_steepness s"
  shows "(\<exists>v. sigmoid_double s x = Finite v \<and> 0 \<le> v \<and> v \<le> 1
              \<and> \<bar>v\<bar> * (1 - \<bar>v\<bar>) = v * (1 - v))
    \<and> (let v = neuron_output (calculate_output inp s) n c in
         (v = neuron_output s n c \<or> (0 \<le> v \<and> v \<le> 1))
         \<and> (1 \<le> timesteps s \<and> 0 \<le> n \<and> n < size_output s
                \<and> size_input s + 2 \<le> c \<and> c \<le> total_neurons s + 1
             \<longrightarrow> 0 \<le> v \<and> v \<le> 1 \<and> \<bar>v\<bar> * (1 - \<bar>v\<bar>) = v * (1 - v)))"
proof -
  obtain v where v: "sigmoid_double s x = Finite v" "0 \<le> v" "v \<le> 1"
    using sigmoid_double_range [OF assms, of x] by blast
  then have a: "\<exists>v. sigmoid_double s x = Finite v \<and> 0 \<le> v \<and> v \<le> 1
      \<and> \<bar>v\<bar> * (1 - \<bar>v\<bar>) = v * (1 - v)"
    by simp
  have b: "neuron_output (calculate_output inp s) n c = neuron_output s n c
        \<or> unit_open (neuron_output (calculate_output inp s) n c)"
    using stored_open_calculate_output [of s inp] by (simp add: stored_open_def)
  have c: "unit_open (neuron_output (calculate_output inp s) n c)"
    if "1 \<le> timesteps s" "0 \<le> n" "n < size_output s"
      "size_input s + 2 \<le> c" "c \<le> total_neurons s + 1"
    using that by (rule calculate_output_open)
  show ?thesis
    using a b c by (auto simp add: Let_def unit_open_def)
qed

theorem sigmoid_closed_range_witness:
  "(\<exists>v. sigmoid_double default_network 3 = Finite v \<and> 0 \<le> v \<and> v \<le> 1
        \<and> \<bar>v\<bar> * (1 - \<bar>v\<bar>) = v * (1 - v))
   \<and> 0 \<le> neuron_output default_forward 0 10 \<and> neuron_output default_forward 0 10 \<le> 1
   \<and> \<bar>neuron_output default_forward 0 10\<bar> * (1 - \<bar>neuron_output default_forward 0 10\<bar>)
       = neuron_output default_forward 0 10 * (1 - neuron_output default_forward 0 10)"
  using sigmoid_closed_range [of default_network 3 "\<lambda>_. 1" 0 10]
  by (simp add: default_network_fields default_forward_def Let_def)

theorem sigmoid_saturates_counterexample:
  "0 < sigmoid_steepness default_network
   \<and> sigmoid_double default_network 8 = Finite 1
   \<and> sigmoid_double default_network (- 512) = Finite 0
   \<and> to_double (sigmoid_steepness default_network) = Finite (3602879701896397 / 2 ^ 53)
   \<and> sigmoid_double (default_network\<lparr>sigmoid_steepness := 3602879701896397 / 2 ^ 53\<rparr>) 8
       = Finite 1"
proof -
  have u: "sigmoid_steepness default_network = 2 / 5"
    by (simp add: default_network_fields)
  have a: "sigmoid_double default_network 8 = Finite 1"
    by (rule sigmoid_double_saturates_high) (use quotient_default in \<open>simp_all add: u\<close>)
  have b: "sigmoid_double default_network (- 512) = Finite 0"
    by (rule sigmoid_double_saturates_low) (simp_all add: u)
  have c: "sigmoid_double (default_network\<lparr>sigmoid_steepness := 3602879701896397 / 2 ^ 53\<rparr>) 8
      = Finite 1"
    by (rule sigmoid_double_saturates_high) (use quotient_double in simp_all)
  show ?thesis using a b c by (simp add: u steepness_double)
qed

text \<open>
  C10. \<^verbatim>\<open>calculate_weight\<close> modifies only the weight matrix: after one call, from every
  starting state, the activation arrays \<open>neuron_input\<close> and \<open>neuron_output\<close>, the table
  \<open>error_delta\<close>, the polarity vector \<open>weights_oscillating\<close> and the counters
  \<open>error_total\<close> and \<open>error_count\<close> are what they were before the call.
\<close>

theorem calculate_weight_frame:
  "neuron_input (calculate_weight s) = neuron_input s
   \<and> neuron_output (calculate_weight s) = neuron_output s
   \<and> error_delta (calculate_weight s) = error_delta s
   \<and> weights_oscillating (calculate_weight s) = weights_oscillating s
   \<and> error_total (calculate_weight s) = error_total s
   \<and> error_count (calculate_weight s) = error_count s"
  using only_weights_fields [OF only_weights_calculate_weight [of s]] by simp

end
